theory Spec2Isabelle
  imports Main "HOL-Library.Word"
begin

section \<open>The naam publisher: data model\<close>

text \<open>
  The publisher (package hacknaam) keeps two keys of chain state in a datastore,
  stores IPLD blocks through a link system whose storage is the same datastore
  under the namespace \<open>ls\<close>, and announces each new head to an indexer.
  Go strings and byte slices are byte sequences, modelled as \<open>string\<close>.
  A \<open>cid.Cid\<close> is a struct holding one string; \<open>cid.Undef\<close> is the empty one,
  \<open>Bytes()\<close> and the link's \<open>Binary()\<close> return that string.
\<close>

type_synonym cid = string

definition Undef :: cid where
  "Undef = []"

datatype error =
    ErrNotFound
  | ErrInvalidName
  | ErrStorage string
  | ErrLib string
  | ErrWrap string error

text \<open>\<open>schema.EntryChunk\<close> and \<open>schema.Advertisement\<close>; a nil \<open>ipld.Link\<close> is \<open>None\<close>.\<close>

record entry_chunk =
  chunk_Entries :: "string list"
  chunk_Next :: "cid option"

record advertisement =
  ad_PreviousID :: "cid option"
  ad_Provider :: string
  ad_Addresses :: "string list"
  ad_Signature :: string
  ad_Entries :: "cid option"
  ad_ContextID :: string
  ad_Metadata :: string
  ad_IsRm :: bool

datatype node = ChunkNode entry_chunk | AdNode advertisement

text \<open>
  The functions of the imported libraries that the publisher calls. They are
  parameters of the model: \<open>'r\<close> is the type of \<open>ipns.Record\<close>. The last
  three are not called by the publisher; the readers of a chain use them:
  the link system's decoder, the public key of a private key, and the
  validation of a naming record against a public key.
\<close>

record 'r lib =
  newRecord :: "string \<Rightarrow> string \<Rightarrow> 64 word \<Rightarrow> int \<Rightarrow> int \<Rightarrow> bool \<Rightarrow> error + 'r"
  marshalRecord :: "'r \<Rightarrow> error + string"
  peerDecode :: "string \<Rightarrow> error + string"
  peerString :: "string \<Rightarrow> string"
  multihashSum :: "string \<Rightarrow> 64 word \<Rightarrow> int \<Rightarrow> error + string"
  chunkToNodeErr :: "entry_chunk \<Rightarrow> error option"
  adToNodeErr :: "advertisement \<Rightarrow> error option"
  signAd :: "string \<Rightarrow> advertisement \<Rightarrow> error + string"
  encode :: "node \<Rightarrow> error + string"
  buildLink :: "string \<Rightarrow> cid"
  newKey :: "string \<Rightarrow> string"
  toUvarint :: "64 word \<Rightarrow> string"
  readUvarint :: "string \<Rightarrow> error + 64 word"
  cidFromBytes :: "string \<Rightarrow> error + cid"
  maString :: "string \<Rightarrow> string"
  metadataProtocolID :: "64 word"
  contextID :: string
  decode :: "string \<Rightarrow> error + node"
  pubKey :: "string \<Rightarrow> string"
  recordVerify :: "string \<Rightarrow> 'r \<Rightarrow> bool"

text \<open>
  The \<open>Naam\<close> struct with what its collaborators hold: the datastore's contents,
  the host's identity and private key, the publisher's root and addresses.
  \<open>ds_faults\<close> gives the outcome of the coming datastore operations
  (\<open>Some msg\<close>: the operation fails with that message and changes nothing;
  \<open>None\<close> or an exhausted list: it works); \<open>announced\<close> logs the
  announcements that were sent.
\<close>

record naam =
  ds_kv :: "string \<rightharpoonup> string"
  ds_faults :: "string option list"
  host_id :: string
  host_pk :: string
  pub_root :: cid
  pub_addrs :: "string list"
  announced :: "(cid \<times> string list) list"

section \<open>Datastore and error plumbing\<close>

definition bindE :: "(error + 'a) \<times> 's \<Rightarrow> ('a \<Rightarrow> 's \<Rightarrow> (error + 'b) \<times> 's) \<Rightarrow> (error + 'b) \<times> 's" where
  "bindE r f = (case r of (Inl e, s) \<Rightarrow> (Inl e, s) | (Inr a, s) \<Rightarrow> f a s)"

definition next_fault :: "naam \<Rightarrow> string option \<times> naam" where
  "next_fault n = (case ds_faults n of [] \<Rightarrow> (None, n) | f # fs \<Rightarrow> (f, n\<lparr>ds_faults := fs\<rparr>))"

definition dsGet :: "naam \<Rightarrow> string \<Rightarrow> (error + string) \<times> naam" where
  "dsGet n k = (case next_fault n of
       (Some msg, n') \<Rightarrow> (Inl (ErrStorage msg), n')
     | (None, n') \<Rightarrow> (case ds_kv n' k of None \<Rightarrow> (Inl ErrNotFound, n') | Some v \<Rightarrow> (Inr v, n')))"

definition dsPut :: "naam \<Rightarrow> string \<Rightarrow> string \<Rightarrow> (error + unit) \<times> naam" where
  "dsPut n k v = (case next_fault n of
       (Some msg, n') \<Rightarrow> (Inl (ErrStorage msg), n')
     | (None, n') \<Rightarrow> (Inr (), n'\<lparr>ds_kv := (ds_kv n')(k \<mapsto> v)\<rparr>))"

text \<open>\<open>datastore.NewKey("headAdCid")\<close>, \<open>datastore.NewKey("height")\<close>.\<close>

definition headAdCid :: string where
  "headAdCid = ''/headAdCid''"

definition height :: string where
  "height = ''/height''"

text \<open>
  \<open>namespace.Wrap(ds, datastore.NewKey("ls"))\<close> prefixes every key with \<open>/ls\<close>
  (\<open>Key.Child\<close>: the root key as child gives the prefix itself).
\<close>

definition lsKey :: "'r lib \<Rightarrow> cid \<Rightarrow> string" where
  "lsKey L l = (let k = newKey L l in if k = ''/'' then ''/ls'' else ''/ls'' @ k)"

section \<open>The link system\<close>

text \<open>
  \<open>LinkSystem.Store\<close> with the openers of \<open>makeLinkSys\<close>: the node is encoded
  into a buffer, the link is built from the hash of the bytes, and the commit
  puts the buffer under the link's binary form. A failed commit returns the
  error. \<open>lsLoad\<close> is the \<open>StorageReadOpener\<close>.
\<close>

definition lsStore :: "'r lib \<Rightarrow> naam \<Rightarrow> node \<Rightarrow> (error + cid) \<times> naam" where
  "lsStore L n nd = (case encode L nd of
       Inl e \<Rightarrow> (Inl e, n)
     | Inr buf \<Rightarrow> (let l = buildLink L buf in
         bindE (dsPut n (lsKey L l) buf) (\<lambda>_ n'. (Inr l, n'))))"

definition lsLoad :: "'r lib \<Rightarrow> naam \<Rightarrow> cid \<Rightarrow> (error + string) \<times> naam" where
  "lsLoad L n l = dsGet n (lsKey L l)"

section \<open>Names\<close>

definition NamespacePrefix :: string where
  "NamespacePrefix = ''/ipns/''"

definition Name :: "'r lib \<Rightarrow> string \<Rightarrow> string" where
  "Name L peerID = NamespacePrefix @ peerString L peerID"

definition TrimPrefix :: "string \<Rightarrow> string \<Rightarrow> string" where
  "TrimPrefix s p = (if take (length p) s = p then drop (length p) s else s)"

definition peerIDFromName :: "'r lib \<Rightarrow> string \<Rightarrow> error + string" where
  "peerIDFromName L name = (let spid = TrimPrefix name NamespacePrefix in
     if spid = name then Inl ErrInvalidName else peerDecode L spid)"

section \<open>Chain state\<close>

definition previousHeight :: "'r lib \<Rightarrow> naam \<Rightarrow> (error + 64 word) \<times> naam" where
  "previousHeight L n = (case dsGet n height of
       (Inl err, n') \<Rightarrow> (if err = ErrNotFound then (Inr 0, n') else (Inl err, n'))
     | (Inr v, n') \<Rightarrow> (readUvarint L v, n'))"

definition getHeadAdCid :: "'r lib \<Rightarrow> naam \<Rightarrow> (error + cid) \<times> naam" where
  "getHeadAdCid L n = (case dsGet n headAdCid of
       (Inl err, n') \<Rightarrow> (if err = ErrNotFound then (Inr Undef, n') else (Inl err, n'))
     | (Inr c, n') \<Rightarrow> (case cidFromBytes L c of
           Inl err \<Rightarrow> (Inr Undef, n')
         | Inr head \<Rightarrow> (Inr head, n')))"

definition setHeadAdCid :: "'r lib \<Rightarrow> naam \<Rightarrow> cid \<Rightarrow> (error + unit) \<times> naam" where
  "setHeadAdCid L n head =
     bindE (dsPut n headAdCid head) (\<lambda>_ n.
     bindE (previousHeight L n) (\<lambda>h n.
     dsPut n height (toUvarint L (h + 1))))"

section \<open>Publish\<close>

definition ipnsMetadata :: "'r lib \<Rightarrow> 'r \<Rightarrow> error + string" where
  "ipnsMetadata L rec = (case marshalRecord L rec of
       Inl err \<Rightarrow> Inl err
     | Inr marshal \<Rightarrow> Inr (toUvarint L (metadataProtocolID L) @ marshal))"

definition adAddrs :: "'r lib \<Rightarrow> naam \<Rightarrow> string list" where
  "adAddrs L n = map (maString L) (pub_addrs n)"

definition chunkToNode :: "'r lib \<Rightarrow> entry_chunk \<Rightarrow> error + node" where
  "chunkToNode L c = (case chunkToNodeErr L c of Some e \<Rightarrow> Inl e | None \<Rightarrow> Inr (ChunkNode c))"

definition adToNode :: "'r lib \<Rightarrow> advertisement \<Rightarrow> error + node" where
  "adToNode L a = (case adToNodeErr L a of Some e \<Rightarrow> Inl e | None \<Rightarrow> Inr (AdNode a))"

text \<open>\<open>ad.Sign(pk)\<close> computes the signature and writes it into the advertisement.\<close>

definition adSign :: "'r lib \<Rightarrow> string \<Rightarrow> advertisement \<Rightarrow> error + advertisement" where
  "adSign L pk a = (case signAd L pk a of
       Inl e \<Rightarrow> Inl e
     | Inr sig \<Rightarrow> Inr (a\<lparr>ad_Signature := sig\<rparr>))"

text \<open>
  \<open>announce.Send\<close> through the http sender. \<open>ann\<close> is the network's answer
  during the call: \<open>Some msg\<close> when the send fails with that message.
\<close>

definition announceSend :: "naam \<Rightarrow> string option \<Rightarrow> cid \<Rightarrow> string list \<Rightarrow> (error + unit) \<times> naam" where
  "announceSend n ann c addrs = (case ann of
       Some msg \<Rightarrow> (Inl (ErrLib msg), n)
     | None \<Rightarrow> (Inr (), n\<lparr>announced := announced n @ [(c, addrs)]\<rparr>))"

definition SHA2_256 :: "64 word" where
  "SHA2_256 = 0x12"

definition hours24 :: int where
  "hours24 = 24 * 3600 * 1000000000"

text \<open>
  \<open>Publish(ctx, value, origName)\<close>; \<open>now\<close> is what \<open>time.Now()\<close> returns during
  the call (a count of nanoseconds) and \<open>ann\<close> the outcome of the announcement.
\<close>

definition Publish ::
  "'r lib \<Rightarrow> naam \<Rightarrow> int \<Rightarrow> string option \<Rightarrow> string \<Rightarrow> string \<Rightarrow> (error + unit) \<times> naam" where
  "Publish L n0 now ann val origName =
     bindE (getHeadAdCid L n0) (\<lambda>head n.
     let prevLink = (if head \<noteq> Undef then Some head else None) in
     bindE (previousHeight L n) (\<lambda>prevHeight n.
     let seq = prevHeight + 1;
         pid = host_id n;
         pk = host_pk n;
         eol = now + hours24;
         ttl = 0 in
     bindE (newRecord L pk val seq eol ttl True, n) (\<lambda>ipnsRec n.
     bindE (peerIDFromName L origName, n) (\<lambda>hackPID n.
     bindE (multihashSum L hackPID SHA2_256 (- 1), n) (\<lambda>mh n.
     let chunk = \<lparr>chunk_Entries = [mh], chunk_Next = None\<rparr> in
     bindE (chunkToNode L chunk, n) (\<lambda>cn n.
     bindE (lsStore L n cn) (\<lambda>entriesLink n.
     bindE (ipnsMetadata L ipnsRec, n) (\<lambda>metadata n.
     let ad = \<lparr>ad_PreviousID = prevLink,
               ad_Provider = peerString L hackPID,
               ad_Addresses = adAddrs L n,
               ad_Signature = [],
               ad_Entries = Some entriesLink,
               ad_ContextID = contextID L,
               ad_Metadata = metadata,
               ad_IsRm = False\<rparr> in
     bindE (adSign L pk ad, n) (\<lambda>ad n.
     bindE (adToNode L ad, n) (\<lambda>adn n.
     bindE (lsStore L n adn) (\<lambda>adLink n.
     let newHead = adLink;
         n = n\<lparr>pub_root := newHead\<rparr> in
     bindE (setHeadAdCid L n newHead) (\<lambda>_ n.
     (case announceSend n ann newHead (pub_addrs n) of
        (Inl err, n) \<Rightarrow> (Inl (ErrWrap ''unsuccessful announce'' err), n)
      | (Inr _, n) \<Rightarrow> (Inr (), n))))))))))))))"


section \<open>Reading the persisted state\<close>

text \<open>
  What \<open>getHeadAdCid\<close> and \<open>previousHeight\<close> return on a datastore with these
  contents when the read itself works.
\<close>

definition storedHead :: "'r lib \<Rightarrow> (string \<rightharpoonup> string) \<Rightarrow> cid" where
  "storedHead L kv = (case kv headAdCid of
       None \<Rightarrow> Undef
     | Some c \<Rightarrow> (case cidFromBytes L c of Inl err \<Rightarrow> Undef | Inr head \<Rightarrow> head))"

definition storedHeight :: "'r lib \<Rightarrow> (string \<rightharpoonup> string) \<Rightarrow> error + 64 word" where
  "storedHeight L kv = (case kv height of None \<Rightarrow> Inr 0 | Some v \<Rightarrow> readUvarint L v)"

text \<open>The link \<open>Publish\<close> makes of the head it read, and the advertisement it fills in.\<close>

definition prevLinkOf :: "cid \<Rightarrow> cid option" where
  "prevLinkOf head = (if head \<noteq> Undef then Some head else None)"

definition unsignedAd :: "'r lib \<Rightarrow> naam \<Rightarrow> string \<Rightarrow> cid \<Rightarrow> string \<Rightarrow> advertisement" where
  "unsignedAd L n pid el md =
     \<lparr>ad_PreviousID = prevLinkOf (storedHead L (ds_kv n)),
      ad_Provider = peerString L pid,
      ad_Addresses = adAddrs L n,
      ad_Signature = [],
      ad_Entries = Some el,
      ad_ContextID = contextID L,
      ad_Metadata = md,
      ad_IsRm = False\<rparr>"

text \<open>
  \<open>headAd L kv a\<close>: the bytes stored under the head key are the link of the
  serialized advertisement \<open>a\<close>, and the link store holds those serialized bytes
  under that link.
\<close>

definition headAd :: "'r lib \<Rightarrow> (string \<rightharpoonup> string) \<Rightarrow> advertisement \<Rightarrow> bool" where
  "headAd L kv a = (\<exists>ab. encode L (AdNode a) = Inr ab
      \<and> kv headAdCid = Some (buildLink L ab)
      \<and> kv (lsKey L (buildLink L ab)) = Some ab)"

text \<open>
  Walking the chain: from a link, load the advertisement, decode it and follow
  its \<open>PreviousID\<close>, at most \<open>k\<close> times. The result is the list of the
  advertisements' links when the walk reaches an absent link, \<open>None\<close> when a
  block is missing or is no advertisement, or when \<open>k\<close> steps do not reach the end.
\<close>

fun walk :: "'r lib \<Rightarrow> (string \<rightharpoonup> string) \<Rightarrow> cid option \<Rightarrow> nat \<Rightarrow> cid list option" where
  "walk L kv None k = Some []"
| "walk L kv (Some c) 0 = None"
| "walk L kv (Some c) (Suc k) = (case kv (lsKey L c) of
       None \<Rightarrow> None
     | Some b \<Rightarrow> (case decode L b of
           Inr (AdNode a) \<Rightarrow> (case walk L kv (ad_PreviousID a) k of
               None \<Rightarrow> None
             | Some cs \<Rightarrow> Some (c # cs))
         | _ \<Rightarrow> None))"

text \<open>A sequence of \<open>Publish\<close> calls, each with its clock reading, announce outcome, value and name.\<close>

type_synonym call = "int \<times> string option \<times> string \<times> string"

fun run :: "'r lib \<Rightarrow> naam \<Rightarrow> call list \<Rightarrow> (error + unit) list \<times> naam" where
  "run L n [] = ([], n)"
| "run L n ((now, ann, val, name) # cs) = (case Publish L n now ann val name of
       (r, n') \<Rightarrow> (case run L n' cs of (rs, n'') \<Rightarrow> (r # rs, n'')))"

text \<open>
  The invariant of a chain of \<open>N\<close> advertisements: the walk from the stored head
  visits \<open>N\<close> different advertisements and ends; every block of the link store
  lies under the link of its own bytes; the head key is present exactly when
  \<open>N > 0\<close>, and then holds a link that was built.
\<close>

definition chain_ok :: "'r lib \<Rightarrow> (string \<rightharpoonup> string) \<Rightarrow> nat \<Rightarrow> bool" where
  "chain_ok L kv N \<longleftrightarrow>
     (\<exists>ws. walk L kv (prevLinkOf (storedHead L kv)) N = Some ws \<and> length ws = N \<and> distinct ws)
   \<and> (\<forall>k v. kv k = Some v \<longrightarrow> k = headAdCid \<or> k = height \<or> k = lsKey L (buildLink L v))
   \<and> (kv headAdCid = None \<longleftrightarrow> N = 0)
   \<and> (\<forall>c. kv headAdCid = Some c \<longrightarrow> (\<exists>b. c = buildLink L b))"

section \<open>What is assumed of the libraries\<close>

text \<open>
  The codec decodes what it encoded; two different blocks never get the same
  key in the link store (no hash collision); a link that was built is a defined
  CID whose bytes parse back to it; a height that was written reads back.
\<close>

definition codec_roundtrip :: "'r lib \<Rightarrow> bool" where
  "codec_roundtrip L = (\<forall>nd b. encode L nd = Inr b \<longrightarrow> decode L b = Inr nd)"

definition collision_free :: "'r lib \<Rightarrow> bool" where
  "collision_free L = (\<forall>b b'. lsKey L (buildLink L b) = lsKey L (buildLink L b') \<longrightarrow> b = b')"

definition cid_roundtrip :: "'r lib \<Rightarrow> bool" where
  "cid_roundtrip L = (\<forall>b. buildLink L b \<noteq> Undef \<and> cidFromBytes L (buildLink L b) = Inr (buildLink L b))"

definition varint_roundtrip :: "'r lib \<Rightarrow> nat \<Rightarrow> bool" where
  "varint_roundtrip L N = (\<forall>k\<le>N. readUvarint L (toUvarint L (of_nat k)) = Inr (of_nat k))"

text \<open>A record validates against the public key of the key that signed it, and no other.\<close>

definition signature_binding :: "'r lib \<Rightarrow> bool" where
  "signature_binding L = (\<forall>k v s e t w r P.
      newRecord L k v s e t w = Inr r \<longrightarrow> (recordVerify L P r \<longleftrightarrow> P = pubKey L k))"


section \<open>A small instance of the libraries\<close>

text \<open>
  An executable instance of the library interface, on which the model is
  evaluated: a self-delimiting serialization with its parser, links that
  prefix the bytes with a tag, heights written in unary, records that keep
  their fields and the signing key.
\<close>

definition encS :: "string \<Rightarrow> string" where
  "encS s = replicate (length s) (CHR ''1'') @ CHR ''0'' # s"

fun unary :: "string \<Rightarrow> nat \<times> string" where
  "unary [] = (0, [])"
| "unary (c # cs) = (if c = CHR ''1'' then (case unary cs of (k, r) \<Rightarrow> (Suc k, r)) else (0, cs))"

definition decS :: "string \<Rightarrow> (string \<times> string) option" where
  "decS x = (case unary x of (k, r) \<Rightarrow>
     if k \<le> length r then Some (take k r, drop k r) else None)"

definition encO :: "string option \<Rightarrow> string" where
  "encO l = (case l of None \<Rightarrow> ''0'' | Some s \<Rightarrow> CHR ''1'' # encS s)"

definition decO :: "string \<Rightarrow> (string option \<times> string) option" where
  "decO x = (case x of [] \<Rightarrow> None
     | c # cs \<Rightarrow> if c = CHR ''1''
         then (case decS cs of None \<Rightarrow> None | Some (s, r) \<Rightarrow> Some (Some s, r))
         else Some (None, cs))"

definition encL :: "string list \<Rightarrow> string" where
  "encL xs = replicate (length xs) (CHR ''1'') @ CHR ''0'' # concat (map encS xs)"

fun decN :: "nat \<Rightarrow> string \<Rightarrow> (string list \<times> string) option" where
  "decN 0 r = Some ([], r)"
| "decN (Suc k) r = (case decS r of None \<Rightarrow> None
     | Some (s, r') \<Rightarrow> (case decN k r' of None \<Rightarrow> None
         | Some (ss, r'') \<Rightarrow> Some (s # ss, r'')))"

definition decL :: "string \<Rightarrow> (string list \<times> string) option" where
  "decL x = (case unary x of (k, r) \<Rightarrow> decN k r)"

definition encAd :: "advertisement \<Rightarrow> string" where
  "encAd a = encO (ad_PreviousID a) @ encS (ad_Provider a) @ encL (ad_Addresses a)
     @ encS (ad_Signature a) @ encO (ad_Entries a) @ encS (ad_ContextID a)
     @ encS (ad_Metadata a) @ (if ad_IsRm a then ''1'' else ''0'')"

definition decAd :: "string \<Rightarrow> advertisement option" where
  "decAd x0 =
     (case decO x0 of None \<Rightarrow> None | Some (prev, x1) \<Rightarrow>
     (case decS x1 of None \<Rightarrow> None | Some (prov, x2) \<Rightarrow>
     (case decL x2 of None \<Rightarrow> None | Some (addrs, x3) \<Rightarrow>
     (case decS x3 of None \<Rightarrow> None | Some (sig, x4) \<Rightarrow>
     (case decO x4 of None \<Rightarrow> None | Some (ents, x5) \<Rightarrow>
     (case decS x5 of None \<Rightarrow> None | Some (ctx, x6) \<Rightarrow>
     (case decS x6 of None \<Rightarrow> None | Some (md, x7) \<Rightarrow>
       Some \<lparr>ad_PreviousID = prev, ad_Provider = prov, ad_Addresses = addrs,
             ad_Signature = sig, ad_Entries = ents, ad_ContextID = ctx,
             ad_Metadata = md, ad_IsRm = (x7 = ''1'')\<rparr>)))))))"

definition encChunk :: "entry_chunk \<Rightarrow> string" where
  "encChunk c = encL (chunk_Entries c) @ encO (chunk_Next c)"

definition decChunk :: "string \<Rightarrow> entry_chunk option" where
  "decChunk x0 =
     (case decL x0 of None \<Rightarrow> None | Some (es, x1) \<Rightarrow>
     (case decO x1 of None \<Rightarrow> None | Some (nx, x2) \<Rightarrow>
       Some \<lparr>chunk_Entries = es, chunk_Next = nx\<rparr>))"

definition encNode :: "node \<Rightarrow> string" where
  "encNode nd = (case nd of ChunkNode c \<Rightarrow> CHR ''c'' # encChunk c | AdNode a \<Rightarrow> CHR ''a'' # encAd a)"

definition decNode :: "string \<Rightarrow> error + node" where
  "decNode x = (case x of [] \<Rightarrow> Inl (ErrLib ''unexpected end'')
     | t # r \<Rightarrow> if t = CHR ''a''
         then (case decAd r of None \<Rightarrow> Inl (ErrLib ''bad advertisement'') | Some a \<Rightarrow> Inr (AdNode a))
         else (case decChunk r of None \<Rightarrow> Inl (ErrLib ''bad chunk'') | Some c \<Rightarrow> Inr (ChunkNode c)))"

type_synonym ref_record = "string \<times> string \<times> 64 word \<times> int \<times> int"

definition refLib :: "ref_record lib" where
  "refLib = \<lparr>
     newRecord = (\<lambda>pk v s e t w. Inr (pk, v, s, e, t)),
     marshalRecord = (\<lambda>(pk, v, s, e, t). Inr (encS pk @ encS v @ replicate (unat s) (CHR ''1''))),
     peerDecode = (\<lambda>s. if s = [] then Inl (ErrLib ''failed to parse peer ID'') else Inr s),
     peerString = (\<lambda>s. s),
     multihashSum = (\<lambda>d c l. Inr (CHR ''h'' # d)),
     chunkToNodeErr = (\<lambda>c. None),
     adToNodeErr = (\<lambda>a. None),
     signAd = (\<lambda>pk a. Inr (CHR ''s'' # pk)),
     encode = (\<lambda>nd. Inr (encNode nd)),
     buildLink = (\<lambda>b. CHR ''b'' # b),
     newKey = (\<lambda>s. CHR ''/'' # s),
     toUvarint = (\<lambda>w. replicate (unat w) (CHR ''1'')),
     readUvarint = (\<lambda>s. Inr (of_nat (length s))),
     cidFromBytes = (\<lambda>s. case s of [] \<Rightarrow> Inl (ErrLib ''empty cid'')
        | c # r \<Rightarrow> if c = CHR ''b'' then Inr s else Inl (ErrLib ''bad cid'')),
     maString = (\<lambda>s. s),
     metadataProtocolID = 3,
     contextID = ''/ipni/naam'',
     decode = decNode,
     pubKey = (\<lambda>k. CHR ''P'' # k),
     recordVerify = (\<lambda>P (pk, v, s, e, t). P = CHR ''P'' # pk)\<rparr>"

text \<open>A fresh publisher, as \<open>New\<close> makes it: an empty datastore, no root.\<close>

definition freshNaam :: naam where
  "freshNaam = \<lparr>ds_kv = Map.empty, ds_faults = [], host_id = ''me'', host_pk = ''k'',
     pub_root = Undef, pub_addrs = [''/ip4/0.0.0.0/tcp/9080/http''], announced = []\<rparr>"

section \<open>The two halves of Publish\<close>

text \<open>
  For the proofs, the body of \<open>Publish\<close> is cut after the store of the
  advertisement: \<open>buildAndStore\<close> is the body up to there, returning the new
  link, \<open>commitAndAnnounce\<close> is the rest. \<open>Publish_factor\<close> below shows that
  \<open>Publish\<close> is the first followed by the second.
\<close>

definition buildAndStore :: "'r lib \<Rightarrow> naam \<Rightarrow> int \<Rightarrow> string \<Rightarrow> string \<Rightarrow> (error + cid) \<times> naam" where
  "buildAndStore L n0 now val origName =
     bindE (getHeadAdCid L n0) (\<lambda>head n.
     let prevLink = (if head \<noteq> Undef then Some head else None) in
     bindE (previousHeight L n) (\<lambda>prevHeight n.
     let seq = prevHeight + 1;
         pid = host_id n;
         pk = host_pk n;
         eol = now + hours24;
         ttl = 0 in
     bindE (newRecord L pk val seq eol ttl True, n) (\<lambda>ipnsRec n.
     bindE (peerIDFromName L origName, n) (\<lambda>hackPID n.
     bindE (multihashSum L hackPID SHA2_256 (- 1), n) (\<lambda>mh n.
     let chunk = \<lparr>chunk_Entries = [mh], chunk_Next = None\<rparr> in
     bindE (chunkToNode L chunk, n) (\<lambda>cn n.
     bindE (lsStore L n cn) (\<lambda>entriesLink n.
     bindE (ipnsMetadata L ipnsRec, n) (\<lambda>metadata n.
     let ad = \<lparr>ad_PreviousID = prevLink,
               ad_Provider = peerString L hackPID,
               ad_Addresses = adAddrs L n,
               ad_Signature = [],
               ad_Entries = Some entriesLink,
               ad_ContextID = contextID L,
               ad_Metadata = metadata,
               ad_IsRm = False\<rparr> in
     bindE (adSign L pk ad, n) (\<lambda>ad n.
     bindE (adToNode L ad, n) (\<lambda>adn n.
     lsStore L n adn))))))))))"

definition commitAndAnnounce :: "'r lib \<Rightarrow> string option \<Rightarrow> cid \<Rightarrow> naam \<Rightarrow> (error + unit) \<times> naam" where
  "commitAndAnnounce L ann newHead n =
     bindE (setHeadAdCid L (n\<lparr>pub_root := newHead\<rparr>) newHead) (\<lambda>_ n.
     (case announceSend n ann newHead (pub_addrs n) of
        (Inl err, n) \<Rightarrow> (Inl (ErrWrap ''unsuccessful announce'' err), n)
      | (Inr _, n) \<Rightarrow> (Inr (), n)))"

text \<open>
  \<open>keeps n n'\<close>: from \<open>n\<close> to \<open>n'\<close> only the datastore changed, and neither the
  head key nor the height key did.
\<close>

definition keeps :: "naam \<Rightarrow> naam \<Rightarrow> bool" where
  "keeps n n' \<longleftrightarrow> n' = n\<lparr>ds_faults := ds_faults n', ds_kv := ds_kv n'\<rparr>
     \<and> ds_kv n' headAdCid = ds_kv n headAdCid \<and> ds_kv n' height = ds_kv n height"

text \<open>
  \<open>onlyChunks L n n'\<close>: from \<open>n\<close> to \<open>n'\<close> only the datastore changed, and every
  key whose value changed now holds a serialized entry chunk under the
  chunk's own link: no advertisement was stored and no chain state written.
\<close>

definition onlyChunks :: "'r lib \<Rightarrow> naam \<Rightarrow> naam \<Rightarrow> bool" where
  "onlyChunks L n n' \<longleftrightarrow> n' = n\<lparr>ds_faults := ds_faults n', ds_kv := ds_kv n'\<rparr>
     \<and> (\<forall>k. ds_kv n' k \<noteq> ds_kv n k \<longrightarrow>
           (\<exists>c eb. encode L (ChunkNode c) = Inr eb \<and> k = lsKey L (buildLink L eb)
              \<and> ds_kv n' k = Some eb))"

section \<open>Basic facts\<close>

lemma bindE_Inr_iff:
  "bindE r f = (Inr x, s') \<longleftrightarrow> (\<exists>a s. r = (Inr a, s) \<and> f a s = (Inr x, s'))"
  by (cases r; cases "fst r") (auto simp: bindE_def)

lemma bindE_Inl_iff:
  "bindE r f = (Inl e, s') \<longleftrightarrow>
     r = (Inl e, s') \<or> (\<exists>a s. r = (Inr a, s) \<and> f a s = (Inl e, s'))"
  by (cases r; cases "fst r") (auto simp: bindE_def)

lemma bindE_simps:
  "bindE (Inl e, s) f = (Inl e, s)"
  "bindE (Inr a, s) f = f a s"
  by (simp_all add: bindE_def)

lemma bindE_assoc: "bindE (bindE m f) g = bindE m (\<lambda>a s. bindE (f a s) g)"
  by (cases m; cases "fst m") (auto simp: bindE_def)

lemma Publish_factor:
  "Publish L n now ann val name =
     bindE (buildAndStore L n now val name) (commitAndAnnounce L ann)"
  unfolding Publish_def buildAndStore_def Let_def bindE_assoc commitAndAnnounce_def [abs_def] ..

lemma next_fault_eq:
  "next_fault n = (case ds_faults n of [] \<Rightarrow> None | f # fs \<Rightarrow> f, n\<lparr>ds_faults := tl (ds_faults n)\<rparr>)"
  by (simp add: next_fault_def split: list.splits)

lemma dsGet_tl: "dsGet n k = (r, n') \<Longrightarrow> n' = n\<lparr>ds_faults := tl (ds_faults n)\<rparr>"
  by (auto simp: dsGet_def next_fault_eq split: option.splits list.splits)

lemma dsPut_Inr_tl:
  "dsPut n k v = (Inr u, n') \<Longrightarrow>
     n' = n\<lparr>ds_faults := tl (ds_faults n), ds_kv := (ds_kv n)(k \<mapsto> v)\<rparr>"
  by (auto simp: dsPut_def next_fault_eq split: option.splits list.splits)

lemma dsPut_Inl_tl:
  "dsPut n k v = (Inl e, n') \<Longrightarrow> n' = n\<lparr>ds_faults := tl (ds_faults n)\<rparr>"
  by (auto simp: dsPut_def next_fault_eq split: option.splits list.splits)

lemma dsPut_fault:
  "ds_faults n = Some msg # fs \<Longrightarrow> dsPut n k v = (Inl (ErrStorage msg), n\<lparr>ds_faults := fs\<rparr>)"
  by (simp add: dsPut_def next_fault_eq)

lemma dsGet_Inr:
  "dsGet n k = (Inr v, n') \<Longrightarrow> ds_kv n k = Some v"
  by (auto simp: dsGet_def next_fault_def split: prod.splits option.splits list.splits)

lemma dsGet_NotFound:
  "dsGet n k = (Inl ErrNotFound, n') \<Longrightarrow> ds_kv n k = None"
  by (auto simp: dsGet_def next_fault_def split: prod.splits option.splits list.splits)

lemma lsKey_prefix: "take 3 (lsKey L l) = ''/ls''"
  by (simp add: lsKey_def Let_def)

lemma lsKey_neq [simp]:
  "lsKey L l \<noteq> headAdCid" "lsKey L l \<noteq> height"
  using lsKey_prefix [of L l] by (auto simp: headAdCid_def height_def)

lemma lsKey_neq' [simp]:
  "headAdCid \<noteq> lsKey L l" "height \<noteq> lsKey L l"
  using lsKey_neq [of L l] by (simp_all add: not_sym)

lemma keys_neq [simp]: "headAdCid \<noteq> height" "height \<noteq> headAdCid"
  by (simp_all add: headAdCid_def height_def)

lemma getHeadAdCid_val:
  assumes "getHeadAdCid L n = (Inr h, n')"
  shows "h = storedHead L (ds_kv n)"
  using assms
  by (auto simp: getHeadAdCid_def storedHead_def split: prod.splits sum.splits if_splits
      dest: dsGet_Inr dsGet_NotFound)

lemma previousHeight_val:
  assumes "previousHeight L n = (Inr h, n')"
  shows "storedHeight L (ds_kv n) = Inr h"
  using assms
  by (auto simp: previousHeight_def storedHeight_def split: prod.splits sum.splits if_splits
      dest: dsGet_Inr dsGet_NotFound)

lemma adAddrs_faults [simp]: "adAddrs L (n\<lparr>ds_faults := f\<rparr>) = adAddrs L n"
  "adAddrs L (n\<lparr>ds_kv := k\<rparr>) = adAddrs L n"
  by (simp_all add: adAddrs_def)

lemma keeps_refl [simp]: "keeps n n"
  by (simp add: keeps_def)

lemma keeps_trans: "keeps n n1 \<Longrightarrow> keeps n1 n2 \<Longrightarrow> keeps n n2"
  unfolding keeps_def
  by (metis (no_types, lifting) naam.surjective naam.update_convs(1,2))

lemma keeps_faults: "n' = n\<lparr>ds_faults := f\<rparr> \<Longrightarrow> keeps n n'"
  by (simp add: keeps_def)

lemma bindE_keeps:
  assumes "keeps n (snd p)" and "\<And>a s. p = (Inr a, s) \<Longrightarrow> keeps s (snd (f a s))"
  shows "keeps n (snd (bindE p f))"
proof (cases p)
  case (Pair r s)
  show ?thesis
  proof (cases r)
    case (Inl e)
    with Pair assms(1) show ?thesis by (simp add: bindE_def)
  next
    case (Inr a)
    with Pair assms have "keeps n s" "keeps s (snd (f a s))" by auto
    then have "keeps n (snd (f a s))" by (rule keeps_trans)
    with Pair Inr show ?thesis by (simp add: bindE_def)
  qed
qed

lemma keeps_pure [simp]: "keeps n (snd (r, n))"
  by simp

lemma dsGet_keeps: "keeps n (snd (dsGet n k))"
  using dsGet_tl [of n k] by (cases "dsGet n k") (auto intro: keeps_faults)

lemma getHeadAdCid_keeps [simp]: "keeps n (snd (getHeadAdCid L n))"
  using dsGet_keeps [of n headAdCid]
  by (auto simp: getHeadAdCid_def split: prod.splits sum.splits)

lemma previousHeight_keeps [simp]: "keeps n (snd (previousHeight L n))"
  using dsGet_keeps [of n height]
  by (auto simp: previousHeight_def split: prod.splits sum.splits)

lemma lsStore_keeps [simp]: "keeps n (snd (lsStore L n nd))"
proof (cases "encode L nd")
  case (Inl e)
  then show ?thesis by (simp add: lsStore_def)
next
  case (Inr buf)
  obtain r n' where p: "dsPut n (lsKey L (buildLink L buf)) buf = (r, n')"
    by (cases "dsPut n (lsKey L (buildLink L buf)) buf")
  have "keeps n n'"
  proof (cases r)
    case (Inl e)
    with p show ?thesis by (auto dest!: dsPut_Inl_tl intro: keeps_faults)
  next
    case (Inr u)
    with p have "n' = n\<lparr>ds_faults := tl (ds_faults n),
        ds_kv := (ds_kv n)(lsKey L (buildLink L buf) \<mapsto> buf)\<rparr>"
      by (auto dest!: dsPut_Inr_tl)
    then show ?thesis by (simp add: keeps_def)
  qed
  with Inr p show ?thesis
    by (cases r) (simp_all add: lsStore_def Let_def bindE_def)
qed

lemma buildAndStore_keeps: "keeps n (snd (buildAndStore L n now val name))"
  unfolding buildAndStore_def Let_def
  by (intro bindE_keeps getHeadAdCid_keeps previousHeight_keeps lsStore_keeps keeps_pure)

lemma getHeadAdCid_tl:
  assumes "getHeadAdCid L n = (r, n')"
  shows "n' = n\<lparr>ds_faults := tl (ds_faults n)\<rparr>"
  using assms
  by (auto simp: getHeadAdCid_def split: prod.splits sum.splits if_splits dest: dsGet_tl)

lemma previousHeight_tl:
  assumes "previousHeight L n = (r, n')"
  shows "n' = n\<lparr>ds_faults := tl (ds_faults n)\<rparr>"
  using assms
  by (auto simp: previousHeight_def split: prod.splits sum.splits if_splits dest: dsGet_tl)

lemma lsStore_Inr_tl:
  assumes "lsStore L n nd = (Inr l, n')"
  shows "\<exists>buf. encode L nd = Inr buf \<and> l = buildLink L buf \<and>
           n' = n\<lparr>ds_faults := tl (ds_faults n), ds_kv := (ds_kv n)(lsKey L l \<mapsto> buf)\<rparr>"
  using assms
  by (auto simp: lsStore_def Let_def bindE_Inr_iff split: sum.splits dest: dsPut_Inr_tl)

lemma tl4: "tl (tl (tl (tl xs))) = drop 4 xs"
  by (simp add: numeral_eq_Suc drop_Suc drop_tl)

lemma tl3: "tl (tl (tl xs)) = drop 3 xs"
  by (simp add: numeral_eq_Suc drop_Suc drop_tl)

lemma buildAndStore_Inr:
  assumes "buildAndStore L n now val name = (Inr al, n4)"
  shows "\<exists>h rec pid mh eb md sig ab.
      storedHeight L (ds_kv n) = Inr h
    \<and> newRecord L (host_pk n) val (h + 1) (now + hours24) 0 True = Inr rec
    \<and> peerIDFromName L name = Inr pid
    \<and> multihashSum L pid SHA2_256 (- 1) = Inr mh
    \<and> encode L (ChunkNode \<lparr>chunk_Entries = [mh], chunk_Next = None\<rparr>) = Inr eb
    \<and> ipnsMetadata L rec = Inr md
    \<and> signAd L (host_pk n) (unsignedAd L n pid (buildLink L eb) md) = Inr sig
    \<and> encode L (AdNode ((unsignedAd L n pid (buildLink L eb) md)\<lparr>ad_Signature := sig\<rparr>)) = Inr ab
    \<and> al = buildLink L ab
    \<and> n4 = n\<lparr>ds_faults := drop 4 (ds_faults n),
             ds_kv := (ds_kv n)(lsKey L (buildLink L eb) \<mapsto> eb,
                                lsKey L (buildLink L ab) \<mapsto> ab)\<rparr>"
proof -
  from assms obtain head n1 h n2 rec pid mh cn el n3 md ad adn where
    s1: "getHeadAdCid L n = (Inr head, n1)" and
    s2: "previousHeight L n1 = (Inr h, n2)" and
    s3: "newRecord L (host_pk n2) val (h + 1) (now + hours24) 0 True = Inr rec" and
    s4: "peerIDFromName L name = Inr pid" and
    s5: "multihashSum L pid SHA2_256 (- 1) = Inr mh" and
    s6: "chunkToNode L \<lparr>chunk_Entries = [mh], chunk_Next = None\<rparr> = Inr cn" and
    s7: "lsStore L n2 cn = (Inr el, n3)" and
    s8: "ipnsMetadata L rec = Inr md" and
    s9: "adSign L (host_pk n2)
           \<lparr>ad_PreviousID = (if head \<noteq> Undef then Some head else None),
            ad_Provider = peerString L pid, ad_Addresses = adAddrs L n3, ad_Signature = [],
            ad_Entries = Some el, ad_ContextID = contextID L, ad_Metadata = md,
            ad_IsRm = False\<rparr> = Inr ad" and
    s10: "adToNode L ad = Inr adn" and
    s11: "lsStore L n3 adn = (Inr al, n4)"
    unfolding buildAndStore_def Let_def bindE_Inr_iff by auto
  have e1: "n1 = n\<lparr>ds_faults := tl (ds_faults n)\<rparr>" by (rule getHeadAdCid_tl [OF s1])
  have e2: "n2 = n\<lparr>ds_faults := tl (tl (ds_faults n))\<rparr>"
    by (subst previousHeight_tl [OF s2], subst (1 2) e1) simp
  have head: "head = storedHead L (ds_kv n)" by (rule getHeadAdCid_val [OF s1])
  have kv1: "ds_kv n1 = ds_kv n" by (subst e1) simp
  have h: "storedHeight L (ds_kv n) = Inr h"
    using previousHeight_val [OF s2] by (simp add: kv1)
  have pk2: "host_pk n2 = host_pk n" by (subst e2) simp
  have cn: "cn = ChunkNode \<lparr>chunk_Entries = [mh], chunk_Next = None\<rparr>"
    using s6 by (auto simp: chunkToNode_def split: option.splits)
  from lsStore_Inr_tl [OF s7] obtain eb where
    eb: "encode L cn = Inr eb" and el: "el = buildLink L eb" and
    e3': "n3 = n2\<lparr>ds_faults := tl (ds_faults n2), ds_kv := (ds_kv n2)(lsKey L el \<mapsto> eb)\<rparr>"
    by blast
  have e3: "n3 = n\<lparr>ds_faults := tl (tl (tl (ds_faults n))),
                    ds_kv := (ds_kv n)(lsKey L el \<mapsto> eb)\<rparr>"
    by (subst e3', subst (1 2 3) e2) simp
  have addrs3: "adAddrs L n3 = adAddrs L n" by (subst e3) simp
  from s9 [unfolded head pk2 addrs3] obtain sig where
    sig: "signAd L (host_pk n) (unsignedAd L n pid el md) = Inr sig" and
    ad: "ad = (unsignedAd L n pid el md)\<lparr>ad_Signature := sig\<rparr>"
    by (auto simp: adSign_def unsignedAd_def prevLinkOf_def split: sum.splits)
  have adn: "adn = AdNode ad"
    using s10 by (auto simp: adToNode_def split: option.splits)
  from lsStore_Inr_tl [OF s11] obtain ab where
    ab: "encode L adn = Inr ab" and al: "al = buildLink L ab" and
    e4': "n4 = n3\<lparr>ds_faults := tl (ds_faults n3), ds_kv := (ds_kv n3)(lsKey L al \<mapsto> ab)\<rparr>"
    by blast
  have e4: "n4 = n\<lparr>ds_faults := drop 4 (ds_faults n),
                    ds_kv := (ds_kv n)(lsKey L el \<mapsto> eb, lsKey L al \<mapsto> ab)\<rparr>"
    by (subst e4', subst (1 2 3) e3) (simp add: tl4)
  show ?thesis
    apply (rule exI [of _ h], rule exI [of _ rec], rule exI [of _ pid], rule exI [of _ mh])
    apply (rule exI [of _ eb], rule exI [of _ md], rule exI [of _ sig], rule exI [of _ ab])
    using h s3 s4 s5 s8 eb sig ab al e4 [unfolded al] unfolding cn adn ad el pk2 by (intro conjI)
qed

lemma setHeadAdCid_Inr_tl:
  assumes "setHeadAdCid L n c = (Inr u, n')"
  shows "\<exists>h. storedHeight L (ds_kv n) = Inr h \<and>
           n' = n\<lparr>ds_faults := drop 3 (ds_faults n),
                  ds_kv := (ds_kv n)(headAdCid \<mapsto> c, height \<mapsto> toUvarint L (h + 1))\<rparr>"
proof -
  from assms obtain n1 h n2 where
    p1: "dsPut n headAdCid c = (Inr (), n1)" and
    ph: "previousHeight L n1 = (Inr h, n2)" and
    p2: "dsPut n2 height (toUvarint L (h + 1)) = (Inr u, n')"
    by (auto simp: setHeadAdCid_def bindE_Inr_iff)
  note e1 = dsPut_Inr_tl [OF p1]
  note e2 = previousHeight_tl [OF ph]
  note e3 = dsPut_Inr_tl [OF p2]
  have kv1: "ds_kv n1 = (ds_kv n)(headAdCid \<mapsto> c)" by (subst e1) simp
  have "storedHeight L (ds_kv n1) = Inr h" using previousHeight_val [OF ph] by simp
  then have h: "storedHeight L (ds_kv n) = Inr h" by (simp add: kv1 storedHeight_def)
  have "n' = n\<lparr>ds_faults := drop 3 (ds_faults n),
                  ds_kv := (ds_kv n)(headAdCid \<mapsto> c, height \<mapsto> toUvarint L (h + 1))\<rparr>"
    by (subst e3, subst (1 2 3) e2, subst (1 2 3) e1) (simp add: tl3)
  with h show ?thesis by blast
qed


lemma commitAndAnnounce_Inr:
  assumes "commitAndAnnounce L ann al n = (Inr u, n')"
  shows "\<exists>h. storedHeight L (ds_kv n) = Inr h \<and> ann = None \<and>
           n' = n\<lparr>ds_faults := drop 3 (ds_faults n),
                  ds_kv := (ds_kv n)(headAdCid \<mapsto> al, height \<mapsto> toUvarint L (h + 1)),
                  pub_root := al,
                  announced := announced n @ [(al, pub_addrs n)]\<rparr>"
proof -
  from assms obtain n5 where
    s: "setHeadAdCid L (n\<lparr>pub_root := al\<rparr>) al = (Inr (), n5)" and
    a: "(case announceSend n5 ann al (pub_addrs n5) of
              (Inl err, n) \<Rightarrow> (Inl (ErrWrap ''unsuccessful announce'' err), n)
            | (Inr _, n) \<Rightarrow> (Inr (), n)) = (Inr u, n')"
    by (auto simp: commitAndAnnounce_def bindE_Inr_iff)
  from setHeadAdCid_Inr_tl [OF s] obtain h where
    h: "storedHeight L (ds_kv n) = Inr h" and
    e5: "n5 = n\<lparr>ds_faults := drop 3 (ds_faults n),
                  ds_kv := (ds_kv n)(headAdCid \<mapsto> al, height \<mapsto> toUvarint L (h + 1)),
                  pub_root := al\<rparr>"
    by auto
  have addrs5: "pub_addrs n5 = pub_addrs n" by (subst e5) simp
  from a have ann: "ann = None" and
    e6: "n' = n5\<lparr>announced := announced n5 @ [(al, pub_addrs n)]\<rparr>"
    by (auto simp: announceSend_def addrs5 split: option.splits)
  have "n' = n\<lparr>ds_faults := drop 3 (ds_faults n),
                  ds_kv := (ds_kv n)(headAdCid \<mapsto> al, height \<mapsto> toUvarint L (h + 1)),
                  pub_root := al,
                  announced := announced n @ [(al, pub_addrs n)]\<rparr>"
    by (subst e6, subst (1 2) e5) simp
  with h ann show ?thesis by blast
qed

lemma storedHeight_ls [simp]:
  "storedHeight L (kv(lsKey L l \<mapsto> b)) = storedHeight L kv"
  by (simp add: storedHeight_def)

lemma storedHead_ls [simp]:
  "storedHead L (kv(lsKey L l \<mapsto> b)) = storedHead L kv"
  by (simp add: storedHead_def)

lemma Publish_Inr:
  assumes "Publish L n now ann val name = (Inr u, n')"
  shows "\<exists>h rec pid mh eb md sig ab.
      storedHeight L (ds_kv n) = Inr h
    \<and> newRecord L (host_pk n) val (h + 1) (now + hours24) 0 True = Inr rec
    \<and> peerIDFromName L name = Inr pid
    \<and> multihashSum L pid SHA2_256 (- 1) = Inr mh
    \<and> encode L (ChunkNode \<lparr>chunk_Entries = [mh], chunk_Next = None\<rparr>) = Inr eb
    \<and> ipnsMetadata L rec = Inr md
    \<and> signAd L (host_pk n) (unsignedAd L n pid (buildLink L eb) md) = Inr sig
    \<and> encode L (AdNode ((unsignedAd L n pid (buildLink L eb) md)\<lparr>ad_Signature := sig\<rparr>)) = Inr ab
    \<and> ann = None
    \<and> n' = n\<lparr>ds_faults := drop 7 (ds_faults n),
             ds_kv := (ds_kv n)(lsKey L (buildLink L eb) \<mapsto> eb,
                                lsKey L (buildLink L ab) \<mapsto> ab,
                                headAdCid \<mapsto> buildLink L ab,
                                height \<mapsto> toUvarint L (h + 1)),
             pub_root := buildLink L ab,
             announced := announced n @ [(buildLink L ab, pub_addrs n)]\<rparr>"
proof -
  from assms obtain al n4 where
    b: "buildAndStore L n now val name = (Inr al, n4)" and
    c: "commitAndAnnounce L ann al n4 = (Inr u, n')"
    by (auto simp: Publish_factor bindE_Inr_iff)
  from buildAndStore_Inr [OF b] obtain h rec pid mh eb md sig ab where
    f: "storedHeight L (ds_kv n) = Inr h"
       "newRecord L (host_pk n) val (h + 1) (now + hours24) 0 True = Inr rec"
       "peerIDFromName L name = Inr pid"
       "multihashSum L pid SHA2_256 (- 1) = Inr mh"
       "encode L (ChunkNode \<lparr>chunk_Entries = [mh], chunk_Next = None\<rparr>) = Inr eb"
       "ipnsMetadata L rec = Inr md"
       "signAd L (host_pk n) (unsignedAd L n pid (buildLink L eb) md) = Inr sig"
       "encode L (AdNode ((unsignedAd L n pid (buildLink L eb) md)\<lparr>ad_Signature := sig\<rparr>)) = Inr ab"
    and al: "al = buildLink L ab"
    and e4: "n4 = n\<lparr>ds_faults := drop 4 (ds_faults n),
             ds_kv := (ds_kv n)(lsKey L (buildLink L eb) \<mapsto> eb,
                                lsKey L (buildLink L ab) \<mapsto> ab)\<rparr>"
    by blast
  from commitAndAnnounce_Inr [OF c] obtain h' where
    h': "storedHeight L (ds_kv n4) = Inr h'" and ann: "ann = None" and
    e': "n' = n4\<lparr>ds_faults := drop 3 (ds_faults n4),
                  ds_kv := (ds_kv n4)(headAdCid \<mapsto> al, height \<mapsto> toUvarint L (h' + 1)),
                  pub_root := al,
                  announced := announced n4 @ [(al, pub_addrs n4)]\<rparr>"
    by blast
  have "storedHeight L (ds_kv n4) = storedHeight L (ds_kv n)" by (subst e4) simp
  with h' f(1) have hh: "h' = h" by simp
  have e: "n' = n\<lparr>ds_faults := drop 7 (ds_faults n),
             ds_kv := (ds_kv n)(lsKey L (buildLink L eb) \<mapsto> eb,
                                lsKey L (buildLink L ab) \<mapsto> ab,
                                headAdCid \<mapsto> buildLink L ab,
                                height \<mapsto> toUvarint L (h + 1)),
             pub_root := buildLink L ab,
             announced := announced n @ [(buildLink L ab, pub_addrs n)]\<rparr>"
    by (subst e', subst (1 2 3 4 5) e4) (simp add: hh al)
  show ?thesis
    apply (rule exI [of _ h], rule exI [of _ rec], rule exI [of _ pid], rule exI [of _ mh])
    apply (rule exI [of _ eb], rule exI [of _ md], rule exI [of _ sig], rule exI [of _ ab])
    using f ann e by (intro conjI)
qed


lemma Publish_Inr_head:
  assumes "Publish L n now ann val name = (Inr u, n')"
  shows "\<exists>h rec pid mh eb md sig.
      storedHeight L (ds_kv n) = Inr h
    \<and> newRecord L (host_pk n) val (h + 1) (now + hours24) 0 True = Inr rec
    \<and> peerIDFromName L name = Inr pid
    \<and> multihashSum L pid SHA2_256 (- 1) = Inr mh
    \<and> encode L (ChunkNode \<lparr>chunk_Entries = [mh], chunk_Next = None\<rparr>) = Inr eb
    \<and> ipnsMetadata L rec = Inr md
    \<and> signAd L (host_pk n) (unsignedAd L n pid (buildLink L eb) md) = Inr sig
    \<and> headAd L (ds_kv n') ((unsignedAd L n pid (buildLink L eb) md)\<lparr>ad_Signature := sig\<rparr>)
    \<and> ds_kv n' height = Some (toUvarint L (h + 1))
    \<and> host_pk n' = host_pk n"
proof -
  from Publish_Inr [OF assms] obtain h rec pid mh eb md sig ab where
    f: "storedHeight L (ds_kv n) = Inr h"
       "newRecord L (host_pk n) val (h + 1) (now + hours24) 0 True = Inr rec"
       "peerIDFromName L name = Inr pid"
       "multihashSum L pid SHA2_256 (- 1) = Inr mh"
       "encode L (ChunkNode \<lparr>chunk_Entries = [mh], chunk_Next = None\<rparr>) = Inr eb"
       "ipnsMetadata L rec = Inr md"
       "signAd L (host_pk n) (unsignedAd L n pid (buildLink L eb) md) = Inr sig"
    and ab: "encode L (AdNode ((unsignedAd L n pid (buildLink L eb) md)\<lparr>ad_Signature := sig\<rparr>)) = Inr ab"
    and e: "n' = n\<lparr>ds_faults := drop 7 (ds_faults n),
             ds_kv := (ds_kv n)(lsKey L (buildLink L eb) \<mapsto> eb,
                                lsKey L (buildLink L ab) \<mapsto> ab,
                                headAdCid \<mapsto> buildLink L ab,
                                height \<mapsto> toUvarint L (h + 1)),
             pub_root := buildLink L ab,
             announced := announced n @ [(buildLink L ab, pub_addrs n)]\<rparr>"
    by blast
  have kv: "ds_kv n' = (ds_kv n)(lsKey L (buildLink L eb) \<mapsto> eb,
                                lsKey L (buildLink L ab) \<mapsto> ab,
                                headAdCid \<mapsto> buildLink L ab,
                                height \<mapsto> toUvarint L (h + 1))"
    by (subst e) simp
  have pk: "host_pk n' = host_pk n" by (subst e) simp
  have hd: "headAd L (ds_kv n') ((unsignedAd L n pid (buildLink L eb) md)\<lparr>ad_Signature := sig\<rparr>)"
    unfolding headAd_def using ab by (intro exI [of _ ab]) (simp add: kv)
  have ht: "ds_kv n' height = Some (toUvarint L (h + 1))" by (simp add: kv)
  show ?thesis
    apply (rule exI [of _ h], rule exI [of _ rec], rule exI [of _ pid], rule exI [of _ mh])
    apply (rule exI [of _ eb], rule exI [of _ md], rule exI [of _ sig])
    using f hd ht pk by (intro conjI)
qed

lemmas ref_eval = Publish_def bindE_def getHeadAdCid_def previousHeight_def dsGet_def dsPut_def
  next_fault_def lsStore_def setHeadAdCid_def peerIDFromName_def TrimPrefix_def NamespacePrefix_def
  ipnsMetadata_def adAddrs_def chunkToNode_def adToNode_def adSign_def announceSend_def
  refLib_def freshNaam_def headAdCid_def height_def lsKey_def Let_def Undef_def SHA2_256_def
  hours24_def encNode_def encChunk_def encAd_def encL_def encO_def encS_def

lemma Publish_pair: "fst (Publish L n now ann val name) = r \<Longrightarrow>
    Publish L n now ann val name = (r, snd (Publish L n now ann val name))"
  by (cases "Publish L n now ann val name") simp


lemma getHeadAdCid_Inl:
  assumes "getHeadAdCid L n = (Inl e, n')"
  shows "\<exists>msg fs. ds_faults n = Some msg # fs \<and> e = ErrStorage msg"
  using assms
  by (auto simp: getHeadAdCid_def dsGet_def next_fault_eq
      split: prod.splits sum.splits if_splits option.splits list.splits)

lemma previousHeight_Inl:
  assumes "previousHeight L n = (Inl e, n')"
  shows "(\<exists>msg fs. ds_faults n = Some msg # fs \<and> e = ErrStorage msg)
       \<or> storedHeight L (ds_kv n) = Inl e"
  using assms
  by (auto simp: previousHeight_def dsGet_def next_fault_eq storedHeight_def
      split: prod.splits sum.splits if_splits option.splits list.splits)

lemma naam_upd_eq:
  assumes "n' = n\<lparr>ds_faults := f, ds_kv := k\<rparr>"
  shows "n' = n\<lparr>ds_faults := ds_faults n', ds_kv := ds_kv n'\<rparr>" and "ds_kv n' = k"
  by (simp_all add: assms)

lemma setHeadAdCid_Inl:
  assumes "setHeadAdCid L n c = (Inl e, n')"
  shows "n' = n\<lparr>ds_faults := ds_faults n', ds_kv := ds_kv n'\<rparr>
       \<and> (ds_kv n' = ds_kv n \<or> ds_kv n' = (ds_kv n)(headAdCid \<mapsto> c))"
proof -
  obtain r1 n1 where p1: "dsPut n headAdCid c = (r1, n1)"
    by (cases "dsPut n headAdCid c")
  show ?thesis
  proof (cases r1)
    case (Inl e1)
    with p1 assms have "n' = n1" by (simp add: setHeadAdCid_def bindE_def)
    moreover from p1 Inl have "n1 = n\<lparr>ds_faults := tl (ds_faults n), ds_kv := ds_kv n\<rparr>"
      by (auto dest: dsPut_Inl_tl)
    ultimately show ?thesis using naam_upd_eq by blast
  next
    case (Inr u1)
    with p1 have e1: "n1 = n\<lparr>ds_faults := tl (ds_faults n), ds_kv := (ds_kv n)(headAdCid \<mapsto> c)\<rparr>"
      by (auto dest: dsPut_Inr_tl)
    obtain r2 n2 where p2: "previousHeight L n1 = (r2, n2)"
      by (cases "previousHeight L n1")
    have e2: "n2 = n1\<lparr>ds_faults := tl (ds_faults n1)\<rparr>" by (rule previousHeight_tl [OF p2])
    show ?thesis
    proof (cases r2)
      case (Inl e2')
      with p1 p2 Inr assms have "n' = n2" by (simp add: setHeadAdCid_def bindE_def)
      moreover have "n2 = n\<lparr>ds_faults := tl (tl (ds_faults n)), ds_kv := (ds_kv n)(headAdCid \<mapsto> c)\<rparr>"
        by (subst e2, subst (1 2) e1) simp
      ultimately show ?thesis using naam_upd_eq by blast
    next
      case (Inr h)
      with p1 p2 \<open>r1 = Inr u1\<close> assms
      have p3: "dsPut n2 height (toUvarint L (h + 1)) = (Inl e, n')"
        by (simp add: setHeadAdCid_def bindE_def)
      have e3: "n' = n2\<lparr>ds_faults := tl (ds_faults n2)\<rparr>" by (rule dsPut_Inl_tl [OF p3])
      have "n' = n\<lparr>ds_faults := tl (tl (tl (ds_faults n))), ds_kv := (ds_kv n)(headAdCid \<mapsto> c)\<rparr>"
        by (subst e3, subst (1 2) e2, subst (1 2) e1) simp
      then show ?thesis using naam_upd_eq by blast
    qed
  qed
qed

lemma commit_of_success:
  assumes "Publish L n now None val name = (Inr u, m)"
  shows "\<exists>al n4 n5. buildAndStore L n now val name = (Inr al, n4)
       \<and> setHeadAdCid L (n4\<lparr>pub_root := al\<rparr>) al = (Inr (), n5)
       \<and> m = n5\<lparr>announced := announced n5 @ [(al, pub_addrs n5)]\<rparr>"
  using assms
  by (auto simp: Publish_factor bindE_Inr_iff commitAndAnnounce_def announceSend_def)


lemma naam_faults_eq: "n' = n\<lparr>ds_faults := f\<rparr> \<Longrightarrow> n' = n\<lparr>ds_faults := ds_faults n'\<rparr>"
  by simp

lemma buildAndStore_badname:
  assumes "peerIDFromName L name = Inl e0"
  shows "\<exists>e n'. buildAndStore L n now val name = (Inl e, n')
     \<and> n' = n\<lparr>ds_faults := ds_faults n'\<rparr>
     \<and> (set (take 2 (ds_faults n)) \<subseteq> {None}
          \<and> storedHeight L (ds_kv n) = Inr h
          \<and> newRecord L (host_pk n) val (h + 1) (now + hours24) 0 True = Inr rec
        \<longrightarrow> e = e0)"
proof -
  obtain r1 n1 where p1: "getHeadAdCid L n = (r1, n1)" by (cases "getHeadAdCid L n")
  have e1: "n1 = n\<lparr>ds_faults := tl (ds_faults n)\<rparr>" by (rule getHeadAdCid_tl [OF p1])
  show ?thesis
  proof (cases r1)
    case (Inl e)
    with p1 have "buildAndStore L n now val name = (Inl e, n1)"
      by (simp add: buildAndStore_def bindE_simps)
    moreover from p1 Inl have "\<not> set (take 2 (ds_faults n)) \<subseteq> {None}"
      by (auto dest!: getHeadAdCid_Inl)
    moreover have "n1 = n\<lparr>ds_faults := ds_faults n1\<rparr>" by (rule naam_faults_eq [OF e1])
    ultimately show ?thesis by blast
  next
    case (Inr head)
    obtain r2 n2 where p2: "previousHeight L n1 = (r2, n2)" by (cases "previousHeight L n1")
    have e2: "n2 = n\<lparr>ds_faults := tl (tl (ds_faults n))\<rparr>"
      by (subst previousHeight_tl [OF p2], subst (1 2) e1) simp
    have e2': "n2 = n\<lparr>ds_faults := ds_faults n2\<rparr>" by (rule naam_faults_eq [OF e2])
    have kv1: "ds_kv n1 = ds_kv n" by (subst e1) simp
    have f1: "ds_faults n1 = tl (ds_faults n)" by (subst e1) simp
    have pk2: "host_pk n2 = host_pk n" by (subst e2) simp
    show ?thesis
    proof (cases r2)
      case (Inl e)
      with p1 p2 \<open>r1 = Inr head\<close> have "buildAndStore L n now val name = (Inl e, n2)"
        by (simp add: buildAndStore_def bindE_simps Let_def)
      moreover from previousHeight_Inl [of L n1 e n2] p2 Inl
      have "\<not> set (take 2 (ds_faults n)) \<subseteq> {None} \<or> storedHeight L (ds_kv n) = Inl e"
        by (cases "ds_faults n") (auto simp: kv1 f1)
      ultimately show ?thesis using e2' by auto
    next
      case (Inr h')
      have hv: "storedHeight L (ds_kv n) = Inr h'"
        using previousHeight_val [of L n1 h' n2] p2 Inr by (simp add: kv1)
      show ?thesis
      proof (cases "newRecord L (host_pk n) val (h' + 1) (now + hours24) 0 True")
        case (Inl e)
        with p1 p2 \<open>r1 = Inr head\<close> \<open>r2 = Inr h'\<close>
        have "buildAndStore L n now val name = (Inl e, n2)"
          by (simp add: buildAndStore_def bindE_simps Let_def pk2)
        with e2' hv Inl show ?thesis by auto
      next
        case (Inr rec')
        with p1 p2 \<open>r1 = Inr head\<close> \<open>r2 = Inr h'\<close> assms
        have "buildAndStore L n now val name = (Inl e0, n2)"
          by (simp add: buildAndStore_def bindE_simps Let_def pk2)
        with e2' show ?thesis by auto
      qed
    qed
  qed
qed

lemma peerIDFromName_cases:
  "(take 6 name \<noteq> ''/ipns/'' \<longrightarrow> peerIDFromName L name = Inl ErrInvalidName)
   \<and> (take 6 name = ''/ipns/'' \<longrightarrow> peerIDFromName L name = peerDecode L (drop 6 name))"
proof -
  have "take 6 name = ''/ipns/'' \<Longrightarrow> drop 6 name \<noteq> name"
  proof
    assume a: "take 6 name = ''/ipns/''" and b: "drop 6 name = name"
    from a have "length (take 6 name) = 6" by simp
    then have "6 \<le> length name" by simp
    moreover from b have "length (drop 6 name) = length name" by simp
    ultimately show False by simp
  qed
  moreover have "length NamespacePrefix = 6" by (simp add: NamespacePrefix_def)
  ultimately show ?thesis
    unfolding peerIDFromName_def TrimPrefix_def Let_def
    by (simp add: NamespacePrefix_def [symmetric])
qed


lemma keepsD:
  assumes "keeps n n'"
  shows "ds_kv n' headAdCid = ds_kv n headAdCid" "ds_kv n' height = ds_kv n height"
    "pub_root n' = pub_root n" "announced n' = announced n"
proof -
  from assms have e: "n' = n\<lparr>ds_faults := ds_faults n', ds_kv := ds_kv n'\<rparr>"
    and k: "ds_kv n' headAdCid = ds_kv n headAdCid" "ds_kv n' height = ds_kv n height"
    by (simp_all add: keeps_def)
  show "ds_kv n' headAdCid = ds_kv n headAdCid" "ds_kv n' height = ds_kv n height" by (rule k)+
  show "pub_root n' = pub_root n" by (subst e) simp
  show "announced n' = announced n" by (subst e) simp
qed

section \<open>The instance satisfies the assumptions\<close>

lemma unary_replicate: "unary (replicate k (CHR ''1'') @ CHR ''0'' # r) = (k, r)"
  by (induction k) simp_all

lemma decS_encS: "decS (encS s @ r) = Some (s, r)"
  by (simp add: decS_def encS_def unary_replicate)

lemma decO_encO: "decO (encO l @ r) = Some (l, r)"
  by (cases l) (simp_all add: decO_def encO_def decS_encS)

lemma decN_concat: "decN (length xs) (concat (map encS xs) @ r) = Some (xs, r)"
  by (induction xs) (simp_all add: decS_encS)

lemma decL_encL: "decL (encL xs @ r) = Some (xs, r)"
  by (simp add: decL_def encL_def unary_replicate decN_concat)

lemma decAd_encAd: "decAd (encAd a) = Some a"
  by (simp add: decAd_def encAd_def decO_encO decS_encS decL_encL)

lemma decChunk_encChunk: "decChunk (encChunk c) = Some c"
  using decO_encO [of "chunk_Next c" "[]"]
  by (simp add: decChunk_def encChunk_def decL_encL)

lemma decNode_encNode: "decNode (encNode nd) = Inr nd"
  by (cases nd) (simp_all add: decNode_def encNode_def decAd_encAd decChunk_encChunk)

lemma refLib_signature_binding: "signature_binding refLib"
  by (auto simp: signature_binding_def refLib_def)

lemma refLib_codec_roundtrip: "codec_roundtrip refLib"
  by (simp add: codec_roundtrip_def refLib_def decNode_encNode)

lemma refLib_collision_free: "collision_free refLib"
  by (simp add: collision_free_def refLib_def lsKey_def)

lemma refLib_cid_roundtrip: "cid_roundtrip refLib"
  by (simp add: cid_roundtrip_def refLib_def Undef_def)

lemma refLib_varint_roundtrip: "varint_roundtrip refLib N"
  by (simp add: varint_roundtrip_def refLib_def)

section \<open>Sequences of calls and the chain invariant\<close>

lemma chunk_ad_keys_differ:
  assumes "codec_roundtrip L" "collision_free L"
    and "encode L (ChunkNode c) = Inr eb" "encode L (AdNode a) = Inr ab"
  shows "lsKey L (buildLink L eb) \<noteq> lsKey L (buildLink L ab)"
proof
  assume "lsKey L (buildLink L eb) = lsKey L (buildLink L ab)"
  with assms(2) have "eb = ab" by (simp add: collision_free_def)
  with assms(1,3,4) have "Inr (ChunkNode c) = (Inr (AdNode a) :: error + node)"
    unfolding codec_roundtrip_def by metis
  then show False by simp
qed

lemma run_append:
  "run L n (cs @ ds) = (case run L n cs of (rs, n1) \<Rightarrow>
      (case run L n1 ds of (rs', n2) \<Rightarrow> (rs @ rs', n2)))"
  by (induction cs arbitrary: n) (auto split: prod.splits)

lemma run_length: "run L n cs = (rs, n') \<Longrightarrow> length rs = length cs"
  by (induction cs arbitrary: n rs) (auto split: prod.splits)

lemma run_height:
  assumes "run L n cs = (rs, n')" and "\<forall>r\<in>set rs. r = Inr ()"
    and "storedHeight L (ds_kv n) = Inr (of_nat k)"
    and "varint_roundtrip L (k + length cs)"
  shows "storedHeight L (ds_kv n') = Inr (of_nat (k + length cs)) \<and> host_pk n' = host_pk n"
  using assms
proof (induction cs arbitrary: n rs k)
  case Nil
  then show ?case by simp
next
  case (Cons c cs)
  obtain now ann val name where c: "c = (now, ann, val, name)" by (cases c) auto
  obtain r n1 where p: "Publish L n now ann val name = (r, n1)"
    by (cases "Publish L n now ann val name")
  obtain rs1 where r1: "run L n1 cs = (rs1, n')" and rs: "rs = r # rs1"
    using Cons.prems(1) c p by (auto split: prod.splits)
  from Cons.prems(2) rs have ok: "r = Inr ()" and oks: "\<forall>r\<in>set rs1. r = Inr ()" by auto
  from Publish_Inr_head [OF p [unfolded ok]] obtain h where
    h: "storedHeight L (ds_kv n) = Inr h" and
    ht: "ds_kv n1 height = Some (toUvarint L (h + 1))" and
    pk: "host_pk n1 = host_pk n"
    by blast
  from h Cons.prems(3) have hk: "h = of_nat k" by simp
  have "Suc k \<le> k + length (c # cs)" by simp
  with Cons.prems(4) have "readUvarint L (toUvarint L (of_nat (Suc k))) = Inr (of_nat (Suc k))"
    unfolding varint_roundtrip_def by blast
  moreover have "(of_nat k :: 64 word) + 1 = of_nat (Suc k)" by simp
  ultimately have s1: "storedHeight L (ds_kv n1) = Inr (of_nat (Suc k))"
    unfolding storedHeight_def ht hk by (simp only: option.case)
  have vr: "varint_roundtrip L (Suc k + length cs)" using Cons.prems(4) by simp
  from Cons.IH [OF r1 oks s1 vr] pk show ?case by simp
qed


lemma run_pair: "fst (run L n cs) = rs \<Longrightarrow> run L n cs = (rs, snd (run L n cs))"
  by (cases "run L n cs") simp

lemma walk_upd:
  assumes "walk L kv l k = Some ws" and "key \<notin> lsKey L ` set ws"
  shows "walk L (kv(key \<mapsto> v)) l k = Some ws"
  using assms
proof (induction L kv l k arbitrary: ws rule: walk.induct)
  case (1 L kv k)
  then show ?case by simp
next
  case (2 L kv c)
  then show ?case by simp
next
  case (3 L kv c k)
  from "3.prems"(1) obtain b a ws' where
    b: "kv (lsKey L c) = Some b" and d: "decode L b = Inr (AdNode a)" and
    w: "walk L kv (ad_PreviousID a) k = Some ws'" and ws: "ws = c # ws'"
    by (auto split: option.splits sum.splits node.splits)
  from "3.prems"(2) ws have nk: "key \<noteq> lsKey L c" and nks: "key \<notin> lsKey L ` set ws'" by auto
  have "walk L (kv(key \<mapsto> v)) (ad_PreviousID a) k = Some ws'"
    by (rule "3.IH" [OF b d refl w nks])
  moreover have "(kv(key \<mapsto> v)) (lsKey L c) = Some b" using b nk by simp
  ultimately show ?case using d ws by (simp del: fun_upd_apply)
qed

lemma walk_det:
  assumes "walk L kv l k = Some ws" and "walk L kv l k' = Some ws'"
  shows "ws = ws'"
  using assms
proof (induction L kv l k arbitrary: ws ws' k' rule: walk.induct)
  case (1 L kv k)
  then show ?case by simp
next
  case (2 L kv c)
  then show ?case by simp
next
  case (3 L kv c k)
  from "3.prems"(1) obtain b a w1 where
    b: "kv (lsKey L c) = Some b" and d: "decode L b = Inr (AdNode a)" and
    w: "walk L kv (ad_PreviousID a) k = Some w1" and ws: "ws = c # w1"
    by (auto split: option.splits sum.splits node.splits)
  from "3.prems"(2) obtain j where k': "k' = Suc j" by (cases k') auto
  from "3.prems"(2) b d k' obtain w2 where
    w': "walk L kv (ad_PreviousID a) j = Some w2" and ws': "ws' = c # w2"
    by (auto split: option.splits)
  from "3.IH" [OF b d refl w w'] ws ws' show ?case by simp
qed

lemma walk_mem:
  assumes "walk L kv l k = Some ws" and "c \<in> set ws"
  shows "\<exists>b a k' ws'. kv (lsKey L c) = Some b \<and> decode L b = Inr (AdNode a)
           \<and> walk L kv (ad_PreviousID a) k' = Some ws' \<and> length ws' < length ws"
  using assms
proof (induction L kv l k arbitrary: ws rule: walk.induct)
  case (1 L kv k)
  then show ?case by simp
next
  case (2 L kv c)
  then show ?case by simp
next
  case (3 L kv c0 k)
  from "3.prems"(1) obtain b a w1 where
    b: "kv (lsKey L c0) = Some b" and d: "decode L b = Inr (AdNode a)" and
    w: "walk L kv (ad_PreviousID a) k = Some w1" and ws: "ws = c0 # w1"
    by (auto split: option.splits sum.splits node.splits)
  show ?case
  proof (cases "c = c0")
    case True
    with b d w ws show ?thesis by auto
  next
    case False
    with "3.prems"(2) ws have "c \<in> set w1" by simp
    from "3.IH" [OF b d refl w this] ws show ?thesis by fastforce
  qed
qed

lemma chain_ok_empty: "chain_ok L Map.empty 0"
  by (simp add: chain_ok_def storedHead_def prevLinkOf_def)

lemma Publish_chain_ok:
  assumes ok: "chain_ok L (ds_kv n) N"
    and p: "Publish L n now ann val name = (Inr u, n')"
    and cr: "codec_roundtrip L" and cf: "collision_free L" and ci: "cid_roundtrip L"
  shows "chain_ok L (ds_kv n') (Suc N)"
proof -
  from Publish_Inr [OF p] obtain h pid mh eb md sig ab where
    eb: "encode L (ChunkNode \<lparr>chunk_Entries = [mh], chunk_Next = None\<rparr>) = Inr eb" and
    ab: "encode L (AdNode ((unsignedAd L n pid (buildLink L eb) md)\<lparr>ad_Signature := sig\<rparr>)) = Inr ab" and
    e: "n' = n\<lparr>ds_faults := drop 7 (ds_faults n),
             ds_kv := (ds_kv n)(lsKey L (buildLink L eb) \<mapsto> eb,
                                lsKey L (buildLink L ab) \<mapsto> ab,
                                headAdCid \<mapsto> buildLink L ab,
                                height \<mapsto> toUvarint L (h + 1)),
             pub_root := buildLink L ab,
             announced := announced n @ [(buildLink L ab, pub_addrs n)]\<rparr>"
    by blast
  define kv where "kv = ds_kv n"
  define a where "a = (unsignedAd L n pid (buildLink L eb) md)\<lparr>ad_Signature := sig\<rparr>"
  define ke where "ke = lsKey L (buildLink L eb)"
  define al where "al = buildLink L ab"
  define ka where "ka = lsKey L al"
  define l0 where "l0 = prevLinkOf (storedHead L kv)"
  have kv': "ds_kv n' = kv(ke \<mapsto> eb, ka \<mapsto> ab, headAdCid \<mapsto> al, height \<mapsto> toUvarint L (h + 1))"
    unfolding kv_def ke_def ka_def al_def by (subst e) simp
  have prev: "ad_PreviousID a = l0"
    by (simp add: a_def unsignedAd_def l0_def kv_def)
  from ok obtain ws where
    w: "walk L kv l0 N = Some ws" and len: "length ws = N" and dis: "distinct ws" and
    cons: "\<And>k v. kv k = Some v \<Longrightarrow> k = headAdCid \<or> k = height \<or> k = lsKey L (buildLink L v)"
    unfolding chain_ok_def kv_def l0_def by blast
  have deb: "decode L eb = Inr (ChunkNode \<lparr>chunk_Entries = [mh], chunk_Next = None\<rparr>)"
    using cr eb unfolding codec_roundtrip_def by blast
  have dab: "decode L ab = Inr (AdNode a)"
    using cr ab unfolding codec_roundtrip_def a_def by blast
  have stored: "\<exists>a' k' ws'. decode L b = Inr (AdNode a') \<and> lsKey L c = lsKey L (buildLink L b)
        \<and> walk L kv (ad_PreviousID a') k' = Some ws' \<and> length ws' < length ws"
    if "c \<in> set ws" and "kv (lsKey L c) = Some b" for c b
  proof -
    from walk_mem [OF w that(1)] that(2) obtain a' k' ws' where
      "decode L b = Inr (AdNode a')" "walk L kv (ad_PreviousID a') k' = Some ws'"
      "length ws' < length ws"
      by auto
    moreover from cons [OF that(2)] have "lsKey L c = lsKey L (buildLink L b)" by simp
    ultimately show ?thesis by blast
  qed
  have present: "\<exists>b. kv (lsKey L c) = Some b" if "c \<in> set ws" for c
    using walk_mem [OF w that] by blast
  have nke: "ke \<notin> lsKey L ` set ws"
  proof
    assume "ke \<in> lsKey L ` set ws"
    then obtain c where c: "c \<in> set ws" and k: "ke = lsKey L c" by auto
    from present [OF c] obtain b where b: "kv (lsKey L c) = Some b" by blast
    from stored [OF c b] obtain a' where
      d: "decode L b = Inr (AdNode a')" and kk: "lsKey L c = lsKey L (buildLink L b)"
      by blast
    from k kk cf have "eb = b" unfolding ke_def collision_free_def by metis
    with d deb show False by simp
  qed
  have nka: "ka \<notin> lsKey L ` set ws"
  proof
    assume "ka \<in> lsKey L ` set ws"
    then obtain c where c: "c \<in> set ws" and k: "ka = lsKey L c" by auto
    from present [OF c] obtain b where b: "kv (lsKey L c) = Some b" by blast
    from stored [OF c b] obtain a' k' ws' where
      d: "decode L b = Inr (AdNode a')" and kk: "lsKey L c = lsKey L (buildLink L b)" and
      w': "walk L kv (ad_PreviousID a') k' = Some ws'" and lt: "length ws' < length ws"
      by blast
    from k kk cf have "ab = b" unfolding ka_def al_def collision_free_def by metis
    with d dab have "a' = a" by simp
    with w' prev have "walk L kv l0 k' = Some ws'" by simp
    from walk_det [OF w this] lt show False by simp
  qed
  have nh: "headAdCid \<notin> lsKey L ` set ws" "height \<notin> lsKey L ` set ws" by auto
  have w1: "walk L (ds_kv n') l0 N = Some ws"
    unfolding kv' by (intro walk_upd w nke nka nh)
  have at: "ds_kv n' ka = Some ab" by (simp add: kv' ka_def)
  have hd: "ds_kv n' headAdCid = Some al" by (simp add: kv')
  from ci have al0: "al \<noteq> Undef" and alr: "cidFromBytes L al = Inr al"
    unfolding cid_roundtrip_def al_def by simp_all
  have sh: "storedHead L (ds_kv n') = al" by (simp add: storedHead_def hd alr)
  have w2: "walk L (ds_kv n') (prevLinkOf (storedHead L (ds_kv n'))) (Suc N) = Some (al # ws)"
    using at dab w1 prev al0 by (simp add: sh prevLinkOf_def ka_def)
  have "al \<notin> set ws" using nka unfolding ka_def by auto
  with dis len have A: "length (al # ws) = Suc N \<and> distinct (al # ws)" by simp
  have B: "k = headAdCid \<or> k = height \<or> k = lsKey L (buildLink L v)"
    if "ds_kv n' k = Some v" for k v
    using that cons [of k v] unfolding kv' ke_def ka_def al_def
    by (auto split: if_splits)
  have C: "\<exists>b. c = buildLink L b" if "ds_kv n' headAdCid = Some c" for c
    using that hd unfolding al_def by auto
  have W: "\<exists>ws'. walk L (ds_kv n') (prevLinkOf (storedHead L (ds_kv n'))) (Suc N) = Some ws'
      \<and> length ws' = Suc N \<and> distinct ws'"
    using w2 A by blast
  have H: "(ds_kv n' headAdCid = None) = (Suc N = 0)" using hd by simp
  show ?thesis
    unfolding chain_ok_def using W B C H by blast
qed

lemma run_chain_ok:
  assumes "run L n cs = (rs, n')" and "\<forall>r\<in>set rs. r = Inr ()"
    and "chain_ok L (ds_kv n) k"
    and "codec_roundtrip L" and "collision_free L" and "cid_roundtrip L"
  shows "chain_ok L (ds_kv n') (k + length cs)"
  using assms(1,2,3)
proof (induction cs arbitrary: n rs k)
  case Nil
  then show ?case by simp
next
  case (Cons c cs)
  obtain now ann val name where c: "c = (now, ann, val, name)" by (cases c) auto
  obtain r n1 where p: "Publish L n now ann val name = (r, n1)"
    by (cases "Publish L n now ann val name")
  obtain rs1 where r1: "run L n1 cs = (rs1, n')" and rs: "rs = r # rs1"
    using Cons.prems(1) c p by (auto split: prod.splits)
  from Cons.prems(2) rs have ok: "r = Inr ()" and oks: "\<forall>r\<in>set rs1. r = Inr ()" by auto
  have "chain_ok L (ds_kv n1) (Suc k)"
    by (rule Publish_chain_ok [OF Cons.prems(3) p [unfolded ok] assms(4,5,6)])
  from Cons.IH [OF r1 oks this] show ?case by simp
qed

section \<open>Calls that fail\<close>

lemma onlyChunks_refl [simp]: "onlyChunks L n n"
  by (simp add: onlyChunks_def)

lemma onlyChunks_trans:
  assumes "onlyChunks L n n1" and "onlyChunks L n1 n2"
  shows "onlyChunks L n n2"
proof -
  from assms have e1: "n1 = n\<lparr>ds_faults := ds_faults n1, ds_kv := ds_kv n1\<rparr>"
    and e2: "n2 = n1\<lparr>ds_faults := ds_faults n2, ds_kv := ds_kv n2\<rparr>"
    by (simp_all add: onlyChunks_def)
  have e: "n2 = n\<lparr>ds_faults := ds_faults n2, ds_kv := ds_kv n2\<rparr>"
    by (subst e2, subst e1) simp
  have "\<exists>c eb. encode L (ChunkNode c) = Inr eb \<and> k = lsKey L (buildLink L eb)
              \<and> ds_kv n2 k = Some eb" if "ds_kv n2 k \<noteq> ds_kv n k" for k
  proof (cases "ds_kv n2 k = ds_kv n1 k")
    case True
    with that have "ds_kv n1 k \<noteq> ds_kv n k" by simp
    with assms(1) True show ?thesis unfolding onlyChunks_def by metis
  next
    case False
    with assms(2) show ?thesis unfolding onlyChunks_def by blast
  qed
  with e show ?thesis unfolding onlyChunks_def by blast
qed

lemma onlyChunks_faults: "n' = n\<lparr>ds_faults := f\<rparr> \<Longrightarrow> onlyChunks L n n'"
  by (simp add: onlyChunks_def)

lemma bindE_onlyChunks_fail:
  assumes "onlyChunks L n (snd p)"
    and "\<And>a s. p = (Inr a, s) \<Longrightarrow> \<forall>e. fst (f a s) = Inl e \<longrightarrow> onlyChunks L s (snd (f a s))"
  shows "\<forall>e. fst (bindE p f) = Inl e \<longrightarrow> onlyChunks L n (snd (bindE p f))"
proof (cases p)
  case (Pair r s)
  show ?thesis
  proof (cases r)
    case (Inl e)
    with Pair assms(1) show ?thesis by (simp add: bindE_def)
  next
    case (Inr a)
    with Pair assms have 1: "onlyChunks L n s"
      and 2: "\<forall>e. fst (f a s) = Inl e \<longrightarrow> onlyChunks L s (snd (f a s))" by auto
    from Pair Inr have "bindE p f = f a s" by (simp add: bindE_def)
    with 1 2 show ?thesis by (auto intro: onlyChunks_trans)
  qed
qed

lemma onlyChunks_pure [simp]: "onlyChunks L n (snd (r, n))"
  by simp

lemma getHeadAdCid_onlyChunks [simp]: "onlyChunks L n (snd (getHeadAdCid L n))"
  using getHeadAdCid_tl [of L n] by (cases "getHeadAdCid L n") (auto intro: onlyChunks_faults)

lemma previousHeight_onlyChunks [simp]: "onlyChunks L n (snd (previousHeight L n))"
  using previousHeight_tl [of L n] by (cases "previousHeight L n") (auto intro: onlyChunks_faults)

lemma lsStore_Inl:
  assumes "lsStore L n nd = (Inl e, n')"
  shows "n' = n \<or> n' = n\<lparr>ds_faults := tl (ds_faults n)\<rparr>"
proof (cases "encode L nd")
  case (Inl e1)
  with assms show ?thesis by (simp add: lsStore_def)
next
  case (Inr buf)
  with assms have "dsPut n (lsKey L (buildLink L buf)) buf = (Inl e, n')"
    by (cases "dsPut n (lsKey L (buildLink L buf)) buf"; cases "fst (dsPut n (lsKey L (buildLink L buf)) buf)")
      (auto simp: lsStore_def Let_def bindE_def)
  then show ?thesis by (auto dest: dsPut_Inl_tl)
qed

lemma lsStore_onlyChunks_fail:
  "\<forall>e. fst (lsStore L n nd) = Inl e \<longrightarrow> onlyChunks L n (snd (lsStore L n nd))"
proof (intro allI impI)
  fix e assume "fst (lsStore L n nd) = Inl e"
  then have "lsStore L n nd = (Inl e, snd (lsStore L n nd))"
    by (cases "lsStore L n nd") simp
  from lsStore_Inl [OF this] show "onlyChunks L n (snd (lsStore L n nd))"
    by (auto intro: onlyChunks_faults)
qed

lemma lsStore_chunk_onlyChunks:
  assumes "chunkToNode L c = Inr cn"
  shows "onlyChunks L n (snd (lsStore L n cn))"
proof -
  from assms have cn: "cn = ChunkNode c" by (auto simp: chunkToNode_def split: option.splits)
  obtain r n' where p: "lsStore L n cn = (r, n')" by (cases "lsStore L n cn")
  show ?thesis
  proof (cases r)
    case (Inl e)
    with p lsStore_onlyChunks_fail [of L n cn] show ?thesis by simp
  next
    case (Inr l)
    from lsStore_Inr_tl [OF p [unfolded Inr]] obtain buf where
      b: "encode L cn = Inr buf" and l: "l = buildLink L buf" and
      e: "n' = n\<lparr>ds_faults := tl (ds_faults n), ds_kv := (ds_kv n)(lsKey L l \<mapsto> buf)\<rparr>"
      by blast
    have kv: "ds_kv n' = (ds_kv n)(lsKey L l \<mapsto> buf)" by (subst e) simp
    have eq: "n' = n\<lparr>ds_faults := ds_faults n', ds_kv := ds_kv n'\<rparr>"
      by (rule naam_upd_eq(1) [OF e])
    have "\<exists>c eb. encode L (ChunkNode c) = Inr eb \<and> k = lsKey L (buildLink L eb)
              \<and> ds_kv n' k = Some eb" if "ds_kv n' k \<noteq> ds_kv n k" for k
    proof -
      from that have "k = lsKey L l" by (auto simp: kv split: if_splits)
      with b cn l kv show ?thesis by auto
    qed
    with eq p show ?thesis unfolding onlyChunks_def by simp
  qed
qed

lemma buildAndStore_fail:
  "\<forall>e. fst (buildAndStore L n now val name) = Inl e
       \<longrightarrow> onlyChunks L n (snd (buildAndStore L n now val name))"
  unfolding buildAndStore_def Let_def
  apply (intro bindE_onlyChunks_fail lsStore_onlyChunks_fail getHeadAdCid_onlyChunks
      previousHeight_onlyChunks onlyChunks_pure)
  apply (auto intro: lsStore_chunk_onlyChunks)
  done

lemma buildAndStore_pair: "fst (buildAndStore L n now val name) = r \<Longrightarrow>
    buildAndStore L n now val name = (r, snd (buildAndStore L n now val name))"
  by (cases "buildAndStore L n now val name") simp

lemma commitAndAnnounce_frame:
  assumes "commitAndAnnounce L ann al n = (r, n')"
  shows "pub_root n' = al \<and> (\<forall>l. ds_kv n' (lsKey L l) = ds_kv n (lsKey L l))
       \<and> (\<forall>u. r = Inr u \<longrightarrow> ds_kv n' headAdCid = Some al)"
proof -
  obtain r5 n5 where s: "setHeadAdCid L (n\<lparr>pub_root := al\<rparr>) al = (r5, n5)"
    by (cases "setHeadAdCid L (n\<lparr>pub_root := al\<rparr>) al")
  show ?thesis
  proof (cases r5)
    case (Inl e)
    with s assms have r: "r = Inl e" and n': "n' = n5"
      by (simp_all add: commitAndAnnounce_def bindE_simps)
    from setHeadAdCid_Inl [OF s [unfolded Inl]] have
      e5: "n5 = (n\<lparr>pub_root := al\<rparr>)\<lparr>ds_faults := ds_faults n5, ds_kv := ds_kv n5\<rparr>" and
      d: "ds_kv n5 = ds_kv n \<or> ds_kv n5 = (ds_kv n)(headAdCid \<mapsto> al)"
      by auto
    have "pub_root n5 = al" by (subst e5) simp
    moreover from d have "\<forall>l. ds_kv n5 (lsKey L l) = ds_kv n (lsKey L l)" by auto
    ultimately show ?thesis using r n' by simp
  next
    case (Inr u5)
    from setHeadAdCid_Inr_tl [OF s [unfolded Inr]] obtain h where
      e5: "n5 = (n\<lparr>pub_root := al\<rparr>)\<lparr>ds_faults := drop 3 (ds_faults (n\<lparr>pub_root := al\<rparr>)),
             ds_kv := (ds_kv (n\<lparr>pub_root := al\<rparr>))(headAdCid \<mapsto> al,
                height \<mapsto> toUvarint L (h + 1))\<rparr>"
      by blast
    have root5: "pub_root n5 = al" by (subst e5) simp
    have kv5: "ds_kv n5 = (ds_kv n)(headAdCid \<mapsto> al, height \<mapsto> toUvarint L (h + 1))"
      by (subst e5) simp
    from assms s Inr have "n' = n5 \<or> n' = n5\<lparr>announced := announced n5 @ [(al, pub_addrs n5)]\<rparr>"
      by (auto simp: commitAndAnnounce_def bindE_simps announceSend_def split: option.splits)
    then have "pub_root n' = al" and "ds_kv n' = ds_kv n5" using root5 by auto
    then show ?thesis by (simp add: kv5)
  qed
qed

lemma previousHeight_ok:
  "ds_faults n = None # fs \<Longrightarrow>
     previousHeight L n = (storedHeight L (ds_kv n), n\<lparr>ds_faults := fs\<rparr>)"
  by (simp add: previousHeight_def dsGet_def next_fault_def storedHeight_def split: option.splits)

lemma dsPut_ok:
  "ds_faults n = None # fs \<Longrightarrow>
     dsPut n k v = (Inr (), n\<lparr>ds_faults := fs, ds_kv := (ds_kv n)(k \<mapsto> v)\<rparr>)"
  by (simp add: dsPut_def next_fault_def)

lemma dsGet_fault:
  "ds_faults n = Some msg # fs \<Longrightarrow> dsGet n k = (Inl (ErrStorage msg), n\<lparr>ds_faults := fs\<rparr>)"
  by (simp add: dsGet_def next_fault_def)

lemma previousHeight_fault:
  "ds_faults n = Some msg # fs \<Longrightarrow>
     previousHeight L n = (Inl (ErrStorage msg), n\<lparr>ds_faults := fs\<rparr>)"
  by (simp add: previousHeight_def dsGet_fault)

lemma setHeadAdCid_head_fault:
  assumes "ds_faults n = Some msg # fs"
  shows "setHeadAdCid L n c = (Inl (ErrStorage msg), n\<lparr>ds_faults := fs\<rparr>)"
  by (simp add: setHeadAdCid_def dsPut_fault [OF assms] bindE_simps)

lemma setHeadAdCid_read_fault:
  assumes "ds_faults n = None # Some msg # fs"
  shows "setHeadAdCid L n c
    = (Inl (ErrStorage msg), n\<lparr>ds_faults := fs, ds_kv := (ds_kv n)(headAdCid \<mapsto> c)\<rparr>)"
proof -
  let ?n1 = "n\<lparr>ds_faults := Some msg # fs, ds_kv := (ds_kv n)(headAdCid \<mapsto> c)\<rparr>"
  have f1: "ds_faults ?n1 = Some msg # fs" by simp
  show ?thesis
    by (simp add: setHeadAdCid_def dsPut_ok [OF assms] bindE_simps previousHeight_fault [OF f1])
qed

lemma setHeadAdCid_height_fault:
  assumes "ds_faults n = None # None # Some msg # fs" and "storedHeight L (ds_kv n) = Inr h"
  shows "setHeadAdCid L n c
    = (Inl (ErrStorage msg), n\<lparr>ds_faults := fs, ds_kv := (ds_kv n)(headAdCid \<mapsto> c)\<rparr>)"
proof -
  let ?n1 = "n\<lparr>ds_faults := None # Some msg # fs, ds_kv := (ds_kv n)(headAdCid \<mapsto> c)\<rparr>"
  let ?n2 = "?n1\<lparr>ds_faults := Some msg # fs\<rparr>"
  have f1: "ds_faults ?n1 = None # Some msg # fs" by simp
  have f2: "ds_faults ?n2 = Some msg # fs" by simp
  have h1: "storedHeight L (ds_kv ?n1) = Inr h" using assms(2) by (simp add: storedHeight_def)
  have p1: "dsPut n headAdCid c = (Inr (), ?n1)" by (simp add: dsPut_ok [OF assms(1)])
  have p2: "previousHeight L ?n1 = (Inr h, ?n2)" using previousHeight_ok [OF f1, of L] h1 by simp
  have p3: "dsPut ?n2 height (toUvarint L (h + 1)) = (Inl (ErrStorage msg), ?n2\<lparr>ds_faults := fs\<rparr>)"
    by (rule dsPut_fault [OF f2])
  show ?thesis
    unfolding setHeadAdCid_def p1 bindE_simps p2 p3 by simp
qed

lemma getHeadAdCid_ok:
  "ds_faults n = None # fs \<Longrightarrow>
     getHeadAdCid L n = (Inr (storedHead L (ds_kv n)), n\<lparr>ds_faults := fs\<rparr>)"
  by (simp add: getHeadAdCid_def dsGet_def next_fault_def storedHead_def
      split: option.splits sum.splits)

lemma lsStore_ok:
  assumes "ds_faults n = None # fs" and "encode L nd = Inr buf"
  shows "lsStore L n nd = (Inr (buildLink L buf),
           n\<lparr>ds_faults := fs, ds_kv := (ds_kv n)(lsKey L (buildLink L buf) \<mapsto> buf)\<rparr>)"
  by (simp add: lsStore_def Let_def assms(2) dsPut_ok [OF assms(1)] bindE_simps)

lemma buildAndStore_transfer:
  assumes g: "buildAndStore L (n\<lparr>ds_faults := []\<rparr>) now val name = (Inr al, m4)"
    and f: "ds_faults n = None # None # None # None # fs"
  shows "buildAndStore L n now val name = (Inr al, m4\<lparr>ds_faults := fs\<rparr>)"
proof -
  let ?G = "n\<lparr>ds_faults := []\<rparr>"
  from g obtain head g1 h g2 rec pid mh cn el g3 md ad adn where
    s1: "getHeadAdCid L ?G = (Inr head, g1)" and
    s2: "previousHeight L g1 = (Inr h, g2)" and
    s3: "newRecord L (host_pk g2) val (h + 1) (now + hours24) 0 True = Inr rec" and
    s4: "peerIDFromName L name = Inr pid" and
    s5: "multihashSum L pid SHA2_256 (- 1) = Inr mh" and
    s6: "chunkToNode L \<lparr>chunk_Entries = [mh], chunk_Next = None\<rparr> = Inr cn" and
    s7: "lsStore L g2 cn = (Inr el, g3)" and
    s8: "ipnsMetadata L rec = Inr md" and
    s9: "adSign L (host_pk g2)
           \<lparr>ad_PreviousID = (if head \<noteq> Undef then Some head else None),
            ad_Provider = peerString L pid, ad_Addresses = adAddrs L g3, ad_Signature = [],
            ad_Entries = Some el, ad_ContextID = contextID L, ad_Metadata = md,
            ad_IsRm = False\<rparr> = Inr ad" and
    s10: "adToNode L ad = Inr adn" and
    s11: "lsStore L g3 adn = (Inr al, m4)"
    unfolding buildAndStore_def Let_def bindE_Inr_iff by auto
  have e1: "g1 = ?G" using getHeadAdCid_tl [OF s1] by simp
  have e2: "g2 = ?G" using previousHeight_tl [OF s2] e1 by simp
  have head: "head = storedHead L (ds_kv n)" using getHeadAdCid_val [OF s1] by simp
  have hv: "storedHeight L (ds_kv n) = Inr h" using previousHeight_val [OF s2] e1 by simp
  from lsStore_Inr_tl [OF s7] obtain eb where
    eb: "encode L cn = Inr eb" and el: "el = buildLink L eb" and
    e3: "g3 = g2\<lparr>ds_faults := tl (ds_faults g2), ds_kv := (ds_kv g2)(lsKey L el \<mapsto> eb)\<rparr>"
    by blast
  from lsStore_Inr_tl [OF s11] obtain ab where
    ab: "encode L adn = Inr ab" and al: "al = buildLink L ab" and
    e4: "m4 = g3\<lparr>ds_faults := tl (ds_faults g3), ds_kv := (ds_kv g3)(lsKey L al \<mapsto> ab)\<rparr>"
    by blast
  define N1 where "N1 = n\<lparr>ds_faults := None # None # None # fs\<rparr>"
  define N2 where "N2 = N1\<lparr>ds_faults := None # None # fs\<rparr>"
  define N3 where "N3 = N2\<lparr>ds_faults := None # fs, ds_kv := (ds_kv N2)(lsKey L (buildLink L eb) \<mapsto> eb)\<rparr>"
  define N4 where "N4 = N3\<lparr>ds_faults := fs, ds_kv := (ds_kv N3)(lsKey L (buildLink L ab) \<mapsto> ab)\<rparr>"
  have f1: "ds_faults N1 = None # None # None # fs" by (simp add: N1_def)
  have f2: "ds_faults N2 = None # None # fs" by (simp add: N2_def)
  have f3: "ds_faults N3 = None # fs" by (simp add: N3_def)
  have t1: "getHeadAdCid L n = (Inr head, N1)"
    unfolding N1_def head by (rule getHeadAdCid_ok [OF f])
  have "storedHeight L (ds_kv N1) = Inr h" using hv by (simp add: N1_def)
  then have t2: "previousHeight L N1 = (Inr h, N2)"
    unfolding N2_def using previousHeight_ok [OF f1, of L] by simp
  have pk: "host_pk N2 = host_pk g2" by (simp add: N2_def N1_def e2)
  have t7: "lsStore L N2 cn = (Inr el, N3)"
    unfolding N3_def el by (rule lsStore_ok [OF f2 eb])
  have ad3: "adAddrs L N3 = adAddrs L g3"
    by (subst e3) (simp add: N3_def N2_def N1_def e2 adAddrs_def)
  have t11: "lsStore L N3 adn = (Inr al, N4)"
    unfolding N4_def al by (rule lsStore_ok [OF f3 ab])
  have b: "buildAndStore L n now val name = (Inr al, N4)"
    unfolding buildAndStore_def Let_def
    by (simp add: t1 bindE_simps t2 pk s3 s4 s5 s6 t7 s8 ad3 s9 s10 t11)
  have "N4 = m4\<lparr>ds_faults := fs\<rparr>"
    by (subst e4, subst (1 2 3) e3) (simp add: N4_def N3_def N2_def N1_def e2 el al)
  with b show ?thesis by simp
qed

lemma failed_commit_core:
  assumes ok: "Publish L (n\<lparr>ds_faults := []\<rparr>) now None val name = (Inr u, m)"
    and f: "ds_faults n = None # None # None # None # rest"
  shows "\<exists>al n4 a ab h. buildAndStore L n now val name = (Inr al, n4)
      \<and> ds_faults n4 = rest
      \<and> ds_kv n4 headAdCid = ds_kv n headAdCid \<and> ds_kv n4 height = ds_kv n height
      \<and> storedHeight L (ds_kv n4) = Inr h
      \<and> encode L (AdNode a) = Inr ab \<and> al = buildLink L ab
      \<and> ds_kv n4 (lsKey L al) = Some ab
      \<and> ds_kv m headAdCid = Some al"
proof -
  let ?G = "n\<lparr>ds_faults := []\<rparr>"
  from ok obtain al m4 where
    b: "buildAndStore L ?G now val name = (Inr al, m4)" and
    c: "commitAndAnnounce L None al m4 = (Inr u, m)"
    by (auto simp: Publish_factor bindE_Inr_iff)
  from commitAndAnnounce_frame [OF c] have mh: "ds_kv m headAdCid = Some al" by simp
  from buildAndStore_Inr [OF b] obtain h a ab eb where
    hv: "storedHeight L (ds_kv ?G) = Inr h" and
    ab: "encode L (AdNode a) = Inr ab" and al: "al = buildLink L ab" and
    e4: "m4 = ?G\<lparr>ds_faults := drop 4 (ds_faults ?G),
             ds_kv := (ds_kv ?G)(lsKey L (buildLink L eb) \<mapsto> eb,
                                lsKey L (buildLink L ab) \<mapsto> ab)\<rparr>"
    by blast
  have kv4: "ds_kv m4 = (ds_kv n)(lsKey L (buildLink L eb) \<mapsto> eb, lsKey L al \<mapsto> ab)"
    by (subst e4) (simp add: al)
  let ?n4 = "m4\<lparr>ds_faults := rest\<rparr>"
  have t: "buildAndStore L n now val name = (Inr al, ?n4)"
    by (rule buildAndStore_transfer [OF b f])
  have "storedHeight L (ds_kv ?n4) = Inr h" using hv by (simp add: kv4)
  moreover have "ds_kv ?n4 headAdCid = ds_kv n headAdCid" "ds_kv ?n4 height = ds_kv n height"
    "ds_kv ?n4 (lsKey L al) = Some ab" "ds_faults ?n4 = rest"
    by (simp_all add: kv4)
  ultimately show ?thesis using t ab al mh by blast
qed


section \<open>The claims\<close>

text \<open>
  C1 (amended). Take a call that succeeds when the datastore never fails, and
  let the first four datastore operations of the call work. If the fifth, the
  write to the head key, fails, Publish returns that error and head and height
  keep their values. If the head write works and the height read or the
  height write after it fails, Publish returns that error, the height keeps
  its value, and the head is already the new advertisement, the same head
  that the successful call stores: the two do not advance as a unit.
\<close>

theorem failed_commit_state:
  assumes "Publish L (n\<lparr>ds_faults := []\<rparr>) now None val name = (Inr u, m)"
  shows "(ds_faults n = None # None # None # None # Some msg # fs \<longrightarrow>
           (\<exists>n'. Publish L n now ann val name = (Inl (ErrStorage msg), n')
              \<and> ds_kv n' headAdCid = ds_kv n headAdCid
              \<and> ds_kv n' height = ds_kv n height))
       \<and> (ds_faults n = None # None # None # None # None # Some msg # fs
          \<or> ds_faults n = None # None # None # None # None # None # Some msg # fs \<longrightarrow>
           (\<exists>n' a. Publish L n now ann val name = (Inl (ErrStorage msg), n')
              \<and> ds_kv n' headAdCid = ds_kv m headAdCid
              \<and> ds_kv n' headAdCid = Some (pub_root n')
              \<and> headAd L (ds_kv n') a
              \<and> ds_kv n' height = ds_kv n height))"
proof -
  have A: "\<exists>n'. Publish L n now ann val name = (Inl (ErrStorage msg), n')
              \<and> ds_kv n' headAdCid = ds_kv n headAdCid
              \<and> ds_kv n' height = ds_kv n height"
    if f: "ds_faults n = None # None # None # None # Some msg # fs"
  proof -
    from failed_commit_core [OF assms f] obtain al n4 where
      b: "buildAndStore L n now val name = (Inr al, n4)" and
      f4: "ds_faults n4 = Some msg # fs" and
      k: "ds_kv n4 headAdCid = ds_kv n headAdCid" "ds_kv n4 height = ds_kv n height"
      by blast
    have f5: "ds_faults (n4\<lparr>pub_root := al\<rparr>) = Some msg # fs" using f4 by simp
    have "Publish L n now ann val name
        = (Inl (ErrStorage msg), (n4\<lparr>pub_root := al\<rparr>)\<lparr>ds_faults := fs\<rparr>)"
      by (simp add: Publish_factor b bindE_simps commitAndAnnounce_def
          setHeadAdCid_head_fault [OF f5])
    with k show ?thesis by simp
  qed
  have B: "\<exists>n' a. Publish L n now ann val name = (Inl (ErrStorage msg), n')
              \<and> ds_kv n' headAdCid = ds_kv m headAdCid
              \<and> ds_kv n' headAdCid = Some (pub_root n')
              \<and> headAd L (ds_kv n') a
              \<and> ds_kv n' height = ds_kv n height"
    if f: "ds_faults n = None # None # None # None # rest"
      and r: "rest = None # Some msg # fs \<or> rest = None # None # Some msg # fs" for rest
  proof -
    from failed_commit_core [OF assms f] obtain al n4 a ab h where
      b: "buildAndStore L n now val name = (Inr al, n4)" and
      f4: "ds_faults n4 = rest" and
      k: "ds_kv n4 height = ds_kv n height" and
      hv: "storedHeight L (ds_kv n4) = Inr h" and
      ab: "encode L (AdNode a) = Inr ab" and al: "al = buildLink L ab" and
      at: "ds_kv n4 (lsKey L al) = Some ab" and
      mh: "ds_kv m headAdCid = Some al"
      by blast
    let ?n5 = "n4\<lparr>pub_root := al\<rparr>"
    let ?n' = "?n5\<lparr>ds_faults := fs, ds_kv := (ds_kv ?n5)(headAdCid \<mapsto> al)\<rparr>"
    have s: "setHeadAdCid L ?n5 al = (Inl (ErrStorage msg), ?n')"
    proof -
      from r show ?thesis
      proof
        assume "rest = None # Some msg # fs"
        with f4 have "ds_faults ?n5 = None # Some msg # fs" by simp
        then show ?thesis by (rule setHeadAdCid_read_fault)
      next
        assume "rest = None # None # Some msg # fs"
        with f4 have "ds_faults ?n5 = None # None # Some msg # fs" by simp
        moreover have "storedHeight L (ds_kv ?n5) = Inr h" using hv by simp
        ultimately show ?thesis by (rule setHeadAdCid_height_fault)
      qed
    qed
    have p: "Publish L n now ann val name = (Inl (ErrStorage msg), ?n')"
      by (simp add: Publish_factor b bindE_simps commitAndAnnounce_def s)
    have kv': "ds_kv ?n' = (ds_kv n4)(headAdCid \<mapsto> al)" by simp
    have hd: "headAd L (ds_kv ?n') a"
      unfolding headAd_def kv' using ab at by (intro exI [of _ ab]) (simp add: al)
    have 1: "ds_kv ?n' headAdCid = ds_kv m headAdCid" by (simp add: mh)
    have 2: "ds_kv ?n' headAdCid = Some (pub_root ?n')" by simp
    have 3: "ds_kv ?n' height = ds_kv n height" by (simp add: k)
    show ?thesis
      by (rule exI [of _ ?n'], rule exI [of _ a], intro conjI p 1 2 hd 3)
  qed
  from A B [of "None # Some msg # fs"] B [of "None # None # Some msg # fs"]
  show ?thesis by auto
qed

theorem failed_commit_state_witness:
  "fst (Publish refLib (freshNaam\<lparr>ds_faults := []\<rparr>) 0 None ''/ipfs/x'' ''/ipns/bob'') = Inr ()
   \<and> (\<exists>n'. Publish refLib
          (freshNaam\<lparr>ds_faults := [None, None, None, None, Some ''disk full'']\<rparr>)
          0 None ''/ipfs/x'' ''/ipns/bob'' = (Inl (ErrStorage ''disk full''), n')
        \<and> ds_kv n' headAdCid = None \<and> ds_kv n' height = None)
   \<and> (\<exists>n' a. Publish refLib
          (freshNaam\<lparr>ds_faults := [None, None, None, None, None, None, Some ''disk full'']\<rparr>)
          0 None ''/ipfs/x'' ''/ipns/bob'' = (Inl (ErrStorage ''disk full''), n')
        \<and> ds_kv n' headAdCid = Some (pub_root n')
        \<and> headAd refLib (ds_kv n') a
        \<and> ds_kv n' height = None)"
proof -
  let ?nA = "freshNaam\<lparr>ds_faults := [None, None, None, None, Some ''disk full'']\<rparr>"
  let ?nB = "freshNaam\<lparr>ds_faults := [None, None, None, None, None, None, Some ''disk full'']\<rparr>"
  have e: "fst (Publish refLib (freshNaam\<lparr>ds_faults := []\<rparr>) 0 None ''/ipfs/x'' ''/ipns/bob'') = Inr ()"
    by (simp add: ref_eval)
  have gA: "?nA\<lparr>ds_faults := []\<rparr> = freshNaam\<lparr>ds_faults := []\<rparr>"
    and gB: "?nB\<lparr>ds_faults := []\<rparr> = freshNaam\<lparr>ds_faults := []\<rparr>" by simp_all
  have k: "ds_kv ?nA headAdCid = None" "ds_kv ?nA height = None" "ds_kv ?nB height = None"
    by (simp_all add: freshNaam_def)
  have fA: "ds_faults ?nA = None # None # None # None # Some ''disk full'' # []" by simp
  have fB: "ds_faults ?nB = None # None # None # None # None # None # Some ''disk full'' # []"
    by simp
  note p = Publish_pair [OF e]
  from failed_commit_state [of refLib ?nA 0 "''/ipfs/x''" "''/ipns/bob''" "()" _ "''disk full''"
      "[]" None, unfolded gA, OF p] fA k
  have 1: "\<exists>n'. Publish refLib ?nA 0 None ''/ipfs/x'' ''/ipns/bob'' = (Inl (ErrStorage ''disk full''), n')
        \<and> ds_kv n' headAdCid = None \<and> ds_kv n' height = None"
    by simp
  from failed_commit_state [of refLib ?nB 0 "''/ipfs/x''" "''/ipns/bob''" "()" _ "''disk full''"
      "[]" None, unfolded gB, OF p] fB k
  have 2: "\<exists>n' a. Publish refLib ?nB 0 None ''/ipfs/x'' ''/ipns/bob'' = (Inl (ErrStorage ''disk full''), n')
        \<and> ds_kv n' headAdCid = Some (pub_root n')
        \<and> headAd refLib (ds_kv n') a
        \<and> ds_kv n' height = None"
    by simp blast
  from e 1 2 show ?thesis by (intro conjI)
qed

text \<open>
  C1 as stated fails: when the head write works and the height write fails,
  the head read back after the call is the new advertisement while the height
  is the one from before the call.
\<close>

theorem failed_commit_counterexample:
  "fst (Publish refLib (freshNaam\<lparr>ds_faults := [None, None, None, None, None, None, Some ''disk full'']\<rparr>)
        0 None ''/ipfs/x'' ''/ipns/bob'') = Inl (ErrStorage ''disk full'')
   \<and> storedHeight refLib (ds_kv (snd (Publish refLib
          (freshNaam\<lparr>ds_faults := [None, None, None, None, None, None, Some ''disk full'']\<rparr>)
          0 None ''/ipfs/x'' ''/ipns/bob''))) = storedHeight refLib (ds_kv freshNaam)
   \<and> storedHead refLib (ds_kv freshNaam) = Undef
   \<and> storedHead refLib (ds_kv (snd (Publish refLib
          (freshNaam\<lparr>ds_faults := [None, None, None, None, None, None, Some ''disk full'']\<rparr>)
          0 None ''/ipfs/x'' ''/ipns/bob''))) \<noteq> Undef"
  by (simp add: ref_eval storedHeight_def storedHead_def)

text \<open>
  C2. After a sequence of Publish calls that all succeed on a chain whose height
  key is absent, the height read back is the number of calls, and the
  advertisement stored at the head has as metadata the protocol ID's varint
  followed by the serialized naming record that the last call built with that
  number as sequence number. The heights
  written are assumed to read back, and the number of calls to fit 64 bits.
\<close>

theorem height_counts_publishes:
  assumes "run L n cs = (rs, n')" and "\<forall>r\<in>set rs. r = Inr ()"
    and "ds_kv n height = None"
    and "varint_roundtrip L (length cs)" and "length cs < 2 ^ 64"
  shows "(\<exists>h. storedHeight L (ds_kv n') = Inr h \<and> unat h = length cs)
    \<and> (\<forall>cs' now ann val name. cs = cs' @ [(now, ann, val, name)] \<longrightarrow>
         (\<exists>s rec mr a. unat s = length cs
            \<and> newRecord L (host_pk n) val s (now + hours24) 0 True = Inr rec
            \<and> marshalRecord L rec = Inr mr
            \<and> ad_Metadata a = toUvarint L (metadataProtocolID L) @ mr
            \<and> headAd L (ds_kv n') a))"
proof -
  have h0: "storedHeight L (ds_kv n) = Inr (of_nat 0)"
    using assms(3) by (simp add: storedHeight_def)
  have un: "unat (of_nat (length cs) :: 64 word) = length cs"
    using assms(5) by (simp add: unat_of_nat)
  from run_height [OF assms(1,2) h0] assms(4)
  have A: "storedHeight L (ds_kv n') = Inr (of_nat (length cs))" by simp
  have B: "\<exists>s rec mr a. unat s = length cs
            \<and> newRecord L (host_pk n) val s (now + hours24) 0 True = Inr rec
            \<and> marshalRecord L rec = Inr mr
            \<and> ad_Metadata a = toUvarint L (metadataProtocolID L) @ mr
            \<and> headAd L (ds_kv n') a"
    if cs: "cs = cs' @ [(now, ann, val, name)]" for cs' now ann val name
  proof -
    obtain rs1 n1 where r1: "run L n cs' = (rs1, n1)" by (cases "run L n cs'")
    obtain r where p: "Publish L n1 now ann val name = (r, n')" and rs: "rs = rs1 @ [r]"
      using assms(1) r1 unfolding cs run_append by (auto split: prod.splits)
    from assms(2) rs have ok: "r = Inr ()" and oks: "\<forall>r\<in>set rs1. r = Inr ()" by auto
    have vr: "varint_roundtrip L (0 + length cs')"
      using assms(4) unfolding cs varint_roundtrip_def by simp
    from run_height [OF r1 oks h0 vr]
    have h1: "storedHeight L (ds_kv n1) = Inr (of_nat (length cs'))" and pk: "host_pk n1 = host_pk n"
      by simp_all
    from Publish_Inr_head [OF p [unfolded ok]] h1 obtain rec pid eb md sig where
      r: "newRecord L (host_pk n1) val (of_nat (length cs') + 1) (now + hours24) 0 True = Inr rec" and
      md: "ipnsMetadata L rec = Inr md" and
      hd: "headAd L (ds_kv n') ((unsignedAd L n1 pid (buildLink L eb) md)\<lparr>ad_Signature := sig\<rparr>)"
      by auto
    have sq: "(of_nat (length cs') :: 64 word) + 1 = of_nat (length cs)" by (simp add: cs)
    from md obtain mr where mr: "marshalRecord L rec = Inr mr"
      and mdm: "md = toUvarint L (metadataProtocolID L) @ mr"
      by (auto simp: ipnsMetadata_def split: sum.splits)
    have m: "ad_Metadata ((unsignedAd L n1 pid (buildLink L eb) md)\<lparr>ad_Signature := sig\<rparr>)
        = toUvarint L (metadataProtocolID L) @ mr"
      by (simp add: unsignedAd_def mdm)
    from r hd mr m un show ?thesis unfolding sq pk by blast
  qed
  from A un B show ?thesis by blast
qed

theorem height_counts_publishes_witness:
  "fst (run refLib freshNaam [(0, None, ''/ipfs/x'', ''/ipns/bob''), (5, None, ''/ipfs/y'', ''/ipns/bob'')])
     = [Inr (), Inr ()]
   \<and> ds_kv freshNaam height = None
   \<and> varint_roundtrip refLib 2
   \<and> storedHeight refLib (ds_kv (snd (run refLib freshNaam
         [(0, None, ''/ipfs/x'', ''/ipns/bob''), (5, None, ''/ipfs/y'', ''/ipns/bob'')]))) = Inr 2
   \<and> (\<exists>mr a. marshalRecord refLib (''k'', ''/ipfs/y'', 2, 5 + hours24, 0) = Inr mr
        \<and> ad_Metadata a = toUvarint refLib (metadataProtocolID refLib) @ mr
        \<and> headAd refLib (ds_kv (snd (run refLib freshNaam
             [(0, None, ''/ipfs/x'', ''/ipns/bob''), (5, None, ''/ipfs/y'', ''/ipns/bob'')]))) a)"
proof -
  let ?cs = "[(0, None, ''/ipfs/x'', ''/ipns/bob''), (5, None, ''/ipfs/y'', ''/ipns/bob'')]
    :: call list"
  have e: "fst (run refLib freshNaam ?cs) = [Inr (), Inr ()]"
    by (simp add: ref_eval)
  have k: "ds_kv freshNaam height = None" by (simp add: freshNaam_def)
  have ok: "\<forall>r\<in>set [Inr (), Inr ()]. r = (Inr () :: error + unit)" by simp
  have len: "length ?cs < 2 ^ 64" "length ?cs = 2" by simp_all
  have vr: "varint_roundtrip refLib (length ?cs)" by (rule refLib_varint_roundtrip)
  note t = height_counts_publishes [OF run_pair [OF e] ok k vr len(1)]
  from t obtain h where h: "storedHeight refLib (ds_kv (snd (run refLib freshNaam ?cs))) = Inr h"
    and u: "unat h = 2" by auto
  from u have "h = 2" by (simp add: word_unat_eq_iff)
  moreover
  from t [THEN conjunct2, rule_format,
      of "[(0, None, ''/ipfs/x'', ''/ipns/bob'')]" 5 None "''/ipfs/y''" "''/ipns/bob''"]
  have "\<exists>s rec mr a. unat s = length ?cs
            \<and> newRecord refLib (host_pk freshNaam) ''/ipfs/y'' s (5 + hours24) 0 True = Inr rec
            \<and> marshalRecord refLib rec = Inr mr
            \<and> ad_Metadata a = toUvarint refLib (metadataProtocolID refLib) @ mr
            \<and> headAd refLib (ds_kv (snd (run refLib freshNaam ?cs))) a"
    by simp
  then obtain s rec mr a where s': "unat s = length ?cs" and
    r: "newRecord refLib (host_pk freshNaam) ''/ipfs/y'' s (5 + hours24) 0 True = Inr rec" and
    mr: "marshalRecord refLib rec = Inr mr" and
    m: "ad_Metadata a = toUvarint refLib (metadataProtocolID refLib) @ mr" and
    hd: "headAd refLib (ds_kv (snd (run refLib freshNaam ?cs))) a"
    by blast
  from s' have "s = 2" by (simp add: word_unat_eq_iff)
  with r have "rec = (''k'', ''/ipfs/y'', 2, 5 + hours24, 0)"
    by (simp add: refLib_def freshNaam_def)
  ultimately show ?thesis using e k h mr m hd refLib_varint_roundtrip [of 2] by blast
qed

text \<open>
  C3. After a sequence of Publish calls that all succeed on a fresh publisher
  (empty datastore), the walk from the stored head along \<open>PreviousID\<close> visits
  exactly as many advertisements as the stored height says and then reaches
  an absent link; the advertisements visited are pairwise different, so there
  is no cycle. The advertisement stored by the last call has the head stored
  before that call as its previous link, and no previous link exactly when no
  head was stored before it. The libraries are assumed to decode what they
  encode, to build links without collisions that parse back, and to read
  back the heights written.
\<close>

theorem chain_integrity:
  assumes "run L n cs = (rs, n')" and "\<forall>r\<in>set rs. r = Inr ()"
    and "ds_kv n = Map.empty"
    and "codec_roundtrip L" and "collision_free L" and "cid_roundtrip L"
    and "varint_roundtrip L (length cs)" and "length cs < 2 ^ 64"
  shows "(\<exists>h ws. storedHeight L (ds_kv n') = Inr h \<and> unat h = length cs
            \<and> walk L (ds_kv n') (prevLinkOf (storedHead L (ds_kv n'))) (unat h) = Some ws
            \<and> length ws = unat h \<and> distinct ws)
    \<and> (\<forall>cs' now ann val name m.
          cs = cs' @ [(now, ann, val, name)] \<longrightarrow> snd (run L n cs') = m \<longrightarrow>
          (\<exists>a. headAd L (ds_kv n') a
             \<and> ad_PreviousID a = prevLinkOf (storedHead L (ds_kv m))
             \<and> (ad_PreviousID a = None \<longleftrightarrow> ds_kv m headAdCid = None)
             \<and> (\<forall>c. ds_kv m headAdCid = Some c \<longrightarrow> ad_PreviousID a = Some c)))"
proof -
  have c0: "chain_ok L (ds_kv n) 0" using assms(3) by (simp add: chain_ok_empty)
  have h0: "storedHeight L (ds_kv n) = Inr (of_nat 0)"
    using assms(3) by (simp add: storedHeight_def)
  have un: "unat (of_nat (length cs) :: 64 word) = length cs"
    using assms(8) by (simp add: unat_of_nat)
  from run_height [OF assms(1,2) h0] assms(7)
  have ht: "storedHeight L (ds_kv n') = Inr (of_nat (length cs))" by simp
  from run_chain_ok [OF assms(1,2) c0 assms(4,5,6)]
  have "chain_ok L (ds_kv n') (length cs)" by simp
  then obtain ws where
    "walk L (ds_kv n') (prevLinkOf (storedHead L (ds_kv n'))) (length cs) = Some ws"
    "length ws = length cs" "distinct ws"
    unfolding chain_ok_def by blast
  with ht un have A: "\<exists>h ws. storedHeight L (ds_kv n') = Inr h \<and> unat h = length cs
            \<and> walk L (ds_kv n') (prevLinkOf (storedHead L (ds_kv n'))) (unat h) = Some ws
            \<and> length ws = unat h \<and> distinct ws"
    by (intro exI [of _ "of_nat (length cs)"] exI [of _ ws]) simp
  have B: "\<exists>a. headAd L (ds_kv n') a
             \<and> ad_PreviousID a = prevLinkOf (storedHead L (ds_kv m))
             \<and> (ad_PreviousID a = None \<longleftrightarrow> ds_kv m headAdCid = None)
             \<and> (\<forall>c. ds_kv m headAdCid = Some c \<longrightarrow> ad_PreviousID a = Some c)"
    if cs: "cs = cs' @ [(now, ann, val, name)]" and m: "snd (run L n cs') = m"
    for cs' now ann val name m
  proof -
    obtain rs1 where r1: "run L n cs' = (rs1, m)" using m by (cases "run L n cs'") simp
    obtain r where p: "Publish L m now ann val name = (r, n')" and rs: "rs = rs1 @ [r]"
      using assms(1) r1 unfolding cs run_append by (auto split: prod.splits)
    from assms(2) rs have ok: "r = Inr ()" and oks: "\<forall>r\<in>set rs1. r = Inr ()" by auto
    from run_chain_ok [OF r1 oks c0 assms(4,5,6)]
    have cm: "chain_ok L (ds_kv m) (length cs')" by simp
    from Publish_Inr_head [OF p [unfolded ok]] obtain pid eb md sig where
      hd: "headAd L (ds_kv n') ((unsignedAd L m pid (buildLink L eb) md)\<lparr>ad_Signature := sig\<rparr>)"
      by blast
    let ?a = "(unsignedAd L m pid (buildLink L eb) md)\<lparr>ad_Signature := sig\<rparr>"
    have pv: "ad_PreviousID ?a = prevLinkOf (storedHead L (ds_kv m))"
      by (simp add: unsignedAd_def)
    have some: "prevLinkOf (storedHead L (ds_kv m)) = Some c" if "ds_kv m headAdCid = Some c" for c
    proof -
      from cm that obtain b where "c = buildLink L b" unfolding chain_ok_def by blast
      with assms(6) have "c \<noteq> Undef" "cidFromBytes L c = Inr c"
        unfolding cid_roundtrip_def by simp_all
      with that show ?thesis by (simp add: storedHead_def prevLinkOf_def)
    qed
    have none: "prevLinkOf (storedHead L (ds_kv m)) = None" if "ds_kv m headAdCid = None"
      using that by (simp add: storedHead_def prevLinkOf_def)
    have iff: "ad_PreviousID ?a = None \<longleftrightarrow> ds_kv m headAdCid = None"
      using some none unfolding pv by (cases "ds_kv m headAdCid") auto
    have all: "\<forall>c. ds_kv m headAdCid = Some c \<longrightarrow> ad_PreviousID ?a = Some c"
      using some unfolding pv by blast
    show ?thesis
      by (rule exI [of _ ?a], intro conjI hd pv iff all)
  qed
  from A B show ?thesis by blast
qed


theorem chain_integrity_witness:
  "fst (run refLib freshNaam [(0, None, ''/ipfs/x'', ''/ipns/bob''), (5, None, ''/ipfs/y'', ''/ipns/bob'')])
     = [Inr (), Inr ()]
   \<and> ds_kv freshNaam = Map.empty
   \<and> codec_roundtrip refLib \<and> collision_free refLib \<and> cid_roundtrip refLib
   \<and> varint_roundtrip refLib 2
   \<and> (\<exists>ws. walk refLib
         (ds_kv (snd (run refLib freshNaam
            [(0, None, ''/ipfs/x'', ''/ipns/bob''), (5, None, ''/ipfs/y'', ''/ipns/bob'')])))
         (prevLinkOf (storedHead refLib (ds_kv (snd (run refLib freshNaam
            [(0, None, ''/ipfs/x'', ''/ipns/bob''), (5, None, ''/ipfs/y'', ''/ipns/bob'')])))))
         2 = Some ws
        \<and> length ws = 2 \<and> distinct ws)
   \<and> (\<exists>a. headAd refLib (ds_kv (snd (run refLib freshNaam
            [(0, None, ''/ipfs/x'', ''/ipns/bob''), (5, None, ''/ipfs/y'', ''/ipns/bob'')]))) a
        \<and> ad_PreviousID a = prevLinkOf (storedHead refLib
             (ds_kv (snd (run refLib freshNaam [(0, None, ''/ipfs/x'', ''/ipns/bob'')]))))
        \<and> (ad_PreviousID a = None \<longleftrightarrow>
             ds_kv (snd (run refLib freshNaam [(0, None, ''/ipfs/x'', ''/ipns/bob'')])) headAdCid = None))"
proof -
  let ?c1 = "(0, None, ''/ipfs/x'', ''/ipns/bob'') :: call"
  let ?cs = "[?c1, (5, None, ''/ipfs/y'', ''/ipns/bob'')] :: call list"
  let ?kv = "ds_kv (snd (run refLib freshNaam ?cs))"
  have e: "fst (run refLib freshNaam ?cs) = [Inr (), Inr ()]"
    by (simp add: ref_eval)
  have k: "ds_kv freshNaam = Map.empty" by (simp add: freshNaam_def)
  have ok: "\<forall>r\<in>set [Inr (), Inr ()]. r = (Inr () :: error + unit)" by simp
  have len: "length ?cs < 2 ^ 64" "length ?cs = 2" by simp_all
  have vr: "varint_roundtrip refLib (length ?cs)" by (rule refLib_varint_roundtrip)
  note t = chain_integrity [OF run_pair [OF e] ok k refLib_codec_roundtrip
      refLib_collision_free refLib_cid_roundtrip vr len(1)]
  from t [THEN conjunct1] obtain h :: "64 word" and ws where
    u: "unat h = length ?cs" and
    w: "walk refLib ?kv (prevLinkOf (storedHead refLib ?kv)) (unat h) = Some ws" and
    l: "length ws = unat h" and d: "distinct ws"
    by (elim exE conjE) (rule that; assumption)
  have u2: "unat h = 2" using u len(2) by simp
  have A: "\<exists>ws. walk refLib ?kv (prevLinkOf (storedHead refLib ?kv)) 2 = Some ws
        \<and> length ws = 2 \<and> distinct ws"
    using w l d unfolding u2 by blast
  have eq: "?cs = [?c1] @ [(5, None, ''/ipfs/y'', ''/ipns/bob'')]" by simp
  from t [THEN conjunct2, rule_format, OF eq refl] obtain a where
    b1: "headAd refLib ?kv a" and
    b2: "ad_PreviousID a = prevLinkOf (storedHead refLib (ds_kv (snd (run refLib freshNaam [?c1]))))" and
    b3: "ad_PreviousID a = None \<longleftrightarrow> ds_kv (snd (run refLib freshNaam [?c1])) headAdCid = None"
    by (elim exE conjE) (rule that; assumption)
  have B: "\<exists>a. headAd refLib ?kv a
        \<and> ad_PreviousID a = prevLinkOf (storedHead refLib (ds_kv (snd (run refLib freshNaam [?c1]))))
        \<and> (ad_PreviousID a = None \<longleftrightarrow> ds_kv (snd (run refLib freshNaam [?c1])) headAdCid = None)"
    by (rule exI [of _ a], intro conjI b1 b2 b3)
  from e k refLib_codec_roundtrip refLib_collision_free refLib_cid_roundtrip
    refLib_varint_roundtrip [of 2] A B
  show ?thesis by (intro conjI)
qed

text \<open>
  C4. When a call would succeed with a working announce and the announce fails,
  Publish returns the announce error wrapped under the label
  \<open>unsuccessful announce\<close>, and the datastore is the one of the successful call:
  the head is the new advertisement and the height is one more than before.
  Nothing was announced.
\<close>

theorem announce_failure_after_commit:
  assumes "Publish L n now None val name = (Inr u, m)"
  shows "\<exists>n' h a.
      Publish L n now (Some msg) val name
        = (Inl (ErrWrap ''unsuccessful announce'' (ErrLib msg)), n')
    \<and> ds_kv n' = ds_kv m
    \<and> storedHeight L (ds_kv n) = Inr h
    \<and> ds_kv n' height = Some (toUvarint L (h + 1))
    \<and> headAd L (ds_kv n') a
    \<and> ds_kv n' headAdCid = Some (pub_root n')
    \<and> announced n' = announced n"
proof -
  from commit_of_success [OF assms] obtain al n4 n5 where
    b: "buildAndStore L n now val name = (Inr al, n4)" and
    s: "setHeadAdCid L (n4\<lparr>pub_root := al\<rparr>) al = (Inr (), n5)" and
    m: "m = n5\<lparr>announced := announced n5 @ [(al, pub_addrs n5)]\<rparr>"
    by blast
  have p: "Publish L n now (Some msg) val name
        = (Inl (ErrWrap ''unsuccessful announce'' (ErrLib msg)), n5)"
    by (simp add: Publish_factor b s bindE_simps commitAndAnnounce_def announceSend_def)
  have kv: "ds_kv n5 = ds_kv m" by (subst m) simp
  from Publish_Inr_head [OF assms] obtain h a where
    h: "storedHeight L (ds_kv n) = Inr h" and
    ht: "ds_kv m height = Some (toUvarint L (h + 1))" and
    hd: "headAd L (ds_kv m) a"
    by blast
  from buildAndStore_Inr [OF b] have e4: "n4 = n4\<lparr>ds_faults := ds_faults n4, ds_kv := ds_kv n4\<rparr>"
    and an4: "announced n4 = announced n"
    by auto
  from setHeadAdCid_Inr_tl [OF s] obtain h' where
    e5: "n5 = (n4\<lparr>pub_root := al\<rparr>)\<lparr>ds_faults := drop 3 (ds_faults (n4\<lparr>pub_root := al\<rparr>)),
                  ds_kv := (ds_kv (n4\<lparr>pub_root := al\<rparr>))(headAdCid \<mapsto> al,
                     height \<mapsto> toUvarint L (h' + 1))\<rparr>"
    by blast
  have an5: "announced n5 = announced n" by (subst e5) (simp add: an4)
  have root: "ds_kv n5 headAdCid = Some (pub_root n5)" by (subst (1 2) e5) simp
  show ?thesis
    using p kv h ht hd an5 root by (intro exI [of _ n5] exI [of _ h] exI [of _ a]) simp
qed

theorem announce_failure_after_commit_witness:
  "fst (Publish refLib freshNaam 0 None ''/ipfs/x'' ''/ipns/bob'') = Inr ()
   \<and> (\<exists>n' h a.
      Publish refLib freshNaam 0 (Some ''connection refused'') ''/ipfs/x'' ''/ipns/bob''
        = (Inl (ErrWrap ''unsuccessful announce'' (ErrLib ''connection refused'')), n')
    \<and> ds_kv n' = ds_kv (snd (Publish refLib freshNaam 0 None ''/ipfs/x'' ''/ipns/bob''))
    \<and> storedHeight refLib (ds_kv freshNaam) = Inr h
    \<and> ds_kv n' height = Some (toUvarint refLib (h + 1))
    \<and> headAd refLib (ds_kv n') a
    \<and> ds_kv n' headAdCid = Some (pub_root n')
    \<and> announced n' = announced freshNaam)"
proof -
  have e: "fst (Publish refLib freshNaam 0 None ''/ipfs/x'' ''/ipns/bob'') = Inr ()"
    by (simp add: ref_eval)
  from announce_failure_after_commit [OF Publish_pair [OF e]] e show ?thesis by blast
qed

text \<open>
  C5. A name without the prefix \<open>/ipns/\<close> is rejected with \<open>ErrInvalidName\<close>;
  a name with the prefix is parsed by decoding the remainder as a peer ID, so
  parsing succeeds exactly when that decoding does, and fails with the
  decoder's error otherwise. Whenever name parsing fails, Publish fails and
  mutates nothing: the datastore, the publisher's root and the announcements
  are as before. The error Publish returns is the one of name parsing whenever
  the two datastore reads before it work, the stored height is readable and
  the record builds, as on the in-memory datastore that \<open>New\<close> creates,
  which never fails and holds only heights the publisher wrote.
\<close>

theorem invalid_name_rejected:
  "(take 6 name \<noteq> ''/ipns/'' \<longrightarrow> peerIDFromName L name = Inl ErrInvalidName)
   \<and> (take 6 name = ''/ipns/'' \<longrightarrow> peerIDFromName L name = peerDecode L (drop 6 name))
   \<and> (peerIDFromName L name = Inl e0 \<longrightarrow>
        (\<exists>e n'. Publish L n now ann val name = (Inl e, n')
           \<and> ds_kv n' = ds_kv n \<and> pub_root n' = pub_root n \<and> announced n' = announced n
           \<and> (set (take 2 (ds_faults n)) \<subseteq> {None}
                \<and> storedHeight L (ds_kv n) = Inr h
                \<and> newRecord L (host_pk n) val (h + 1) (now + hours24) 0 True = Inr rec
              \<longrightarrow> e = e0)))"
proof -
  have "\<exists>e n'. Publish L n now ann val name = (Inl e, n')
           \<and> ds_kv n' = ds_kv n \<and> pub_root n' = pub_root n \<and> announced n' = announced n
           \<and> (set (take 2 (ds_faults n)) \<subseteq> {None}
                \<and> storedHeight L (ds_kv n) = Inr h
                \<and> newRecord L (host_pk n) val (h + 1) (now + hours24) 0 True = Inr rec
              \<longrightarrow> e = e0)"
    if bad: "peerIDFromName L name = Inl e0"
  proof -
    from buildAndStore_badname [OF bad, of n now val h rec] obtain e n' where
      b: "buildAndStore L n now val name = (Inl e, n')" and
      eq: "n' = n\<lparr>ds_faults := ds_faults n'\<rparr>" and
      er: "set (take 2 (ds_faults n)) \<subseteq> {None}
          \<and> storedHeight L (ds_kv n) = Inr h
          \<and> newRecord L (host_pk n) val (h + 1) (now + hours24) 0 True = Inr rec
        \<longrightarrow> e = e0"
      by blast
    have p: "Publish L n now ann val name = (Inl e, n')"
      by (simp add: Publish_factor b bindE_simps)
    have "ds_kv n' = ds_kv n" "pub_root n' = pub_root n" "announced n' = announced n"
      by (subst eq, simp)+
    with p er show ?thesis by blast
  qed
  with peerIDFromName_cases [of name L] show ?thesis by blast
qed

theorem invalid_name_rejected_witness:
  "take 6 ''bob'' \<noteq> ''/ipns/'' \<and> take 6 ''/ipns/bob'' = ''/ipns/''
   \<and> peerIDFromName refLib ''bob'' = Inl ErrInvalidName
   \<and> peerIDFromName refLib ''/ipns/bob'' = Inr ''bob''
   \<and> peerIDFromName refLib ''/ipns/'' = Inl (ErrLib ''failed to parse peer ID'')
   \<and> set (take 2 (ds_faults freshNaam)) \<subseteq> {None}
   \<and> storedHeight refLib (ds_kv freshNaam) = Inr 0
   \<and> newRecord refLib (host_pk freshNaam) ''/ipfs/x'' (0 + 1) (0 + hours24) 0 True
        = Inr (''k'', ''/ipfs/x'', 1, hours24, 0)
   \<and> (\<exists>n'. Publish refLib freshNaam 0 None ''/ipfs/x'' ''bob'' = (Inl ErrInvalidName, n')
        \<and> ds_kv n' = ds_kv freshNaam \<and> pub_root n' = pub_root freshNaam
        \<and> announced n' = announced freshNaam)"
proof -
  have a: "take 6 ''bob'' \<noteq> ''/ipns/''" "take 6 ''/ipns/bob'' = ''/ipns/''" by simp_all
  have b: "peerIDFromName refLib ''bob'' = Inl ErrInvalidName"
    "peerIDFromName refLib ''/ipns/bob'' = Inr ''bob''"
    "peerIDFromName refLib ''/ipns/'' = Inl (ErrLib ''failed to parse peer ID'')"
    by (simp_all add: ref_eval)
  have c: "set (take 2 (ds_faults freshNaam)) \<subseteq> {None}"
    "storedHeight refLib (ds_kv freshNaam) = Inr 0"
    "newRecord refLib (host_pk freshNaam) ''/ipfs/x'' (0 + 1) (0 + hours24) 0 True
        = Inr (''k'', ''/ipfs/x'', 1, hours24, 0)"
    by (simp_all add: freshNaam_def storedHeight_def refLib_def)
  from invalid_name_rejected [of "''bob''" refLib ErrInvalidName freshNaam 0 None "''/ipfs/x''"
      0 "(''k'', ''/ipfs/x'', 1, hours24, 0)"] a b c
  show ?thesis by blast
qed

text \<open>
  C6. After every successful Publish the link store holds, under the link that
  the head advertisement's \<open>Entries\<close> field carries, the serialized entry chunk
  whose only entry is the SHA2-256 multihash of the peer ID decoded from the
  claimed name (the bytes after \<open>/ipns/\<close>), and that has no next chunk. The
  host's own identity does not enter it. (The codec decodes what it encodes
  and links do not collide, so the advertisement, stored after the chunk, is
  not stored over it.)
\<close>

theorem entries_block_of_claimed_identity:
  assumes "Publish L n now ann val name = (Inr u, n')"
    and "codec_roundtrip L" and "collision_free L"
  shows "\<exists>pid mh eb a.
      take 6 name = ''/ipns/''
    \<and> peerDecode L (drop 6 name) = Inr pid
    \<and> multihashSum L pid SHA2_256 (- 1) = Inr mh
    \<and> encode L (ChunkNode \<lparr>chunk_Entries = [mh], chunk_Next = None\<rparr>) = Inr eb
    \<and> headAd L (ds_kv n') a
    \<and> ad_Entries a = Some (buildLink L eb)
    \<and> ds_kv n' (lsKey L (buildLink L eb)) = Some eb"
proof -
  from Publish_Inr [OF assms(1)] obtain h pid mh eb md sig ab where
    p: "peerIDFromName L name = Inr pid" and
    mh: "multihashSum L pid SHA2_256 (- 1) = Inr mh" and
    eb: "encode L (ChunkNode \<lparr>chunk_Entries = [mh], chunk_Next = None\<rparr>) = Inr eb" and
    ab: "encode L (AdNode ((unsignedAd L n pid (buildLink L eb) md)\<lparr>ad_Signature := sig\<rparr>)) = Inr ab" and
    e: "n' = n\<lparr>ds_faults := drop 7 (ds_faults n),
             ds_kv := (ds_kv n)(lsKey L (buildLink L eb) \<mapsto> eb,
                                lsKey L (buildLink L ab) \<mapsto> ab,
                                headAdCid \<mapsto> buildLink L ab,
                                height \<mapsto> toUvarint L (h + 1)),
             pub_root := buildLink L ab,
             announced := announced n @ [(buildLink L ab, pub_addrs n)]\<rparr>"
    by blast
  let ?a = "(unsignedAd L n pid (buildLink L eb) md)\<lparr>ad_Signature := sig\<rparr>"
  have kv: "ds_kv n' = (ds_kv n)(lsKey L (buildLink L eb) \<mapsto> eb,
                                lsKey L (buildLink L ab) \<mapsto> ab,
                                headAdCid \<mapsto> buildLink L ab,
                                height \<mapsto> toUvarint L (h + 1))"
    by (subst e) simp
  from peerIDFromName_cases [of name L] p have
    pre: "take 6 name = ''/ipns/''" and dec: "peerDecode L (drop 6 name) = Inr pid"
    by auto
  have hd: "headAd L (ds_kv n') ?a"
    unfolding headAd_def using ab by (intro exI [of _ ab]) (simp add: kv)
  have en: "ad_Entries ?a = Some (buildLink L eb)" by (simp add: unsignedAd_def)
  have ne: "lsKey L (buildLink L eb) \<noteq> lsKey L (buildLink L ab)"
    by (rule chunk_ad_keys_differ [OF assms(2,3) eb ab])
  have st: "ds_kv n' (lsKey L (buildLink L eb)) = Some eb"
    using ne by (simp add: kv)
  show ?thesis
    apply (rule exI [of _ pid], rule exI [of _ mh], rule exI [of _ eb], rule exI [of _ ?a])
    using pre dec mh eb hd en st by (intro conjI)
qed

theorem entries_block_of_claimed_identity_witness:
  "fst (Publish refLib freshNaam 0 None ''/ipfs/x'' ''/ipns/bob'') = Inr ()
   \<and> codec_roundtrip refLib \<and> collision_free refLib
   \<and> (\<exists>pid mh eb a.
      take 6 ''/ipns/bob'' = ''/ipns/''
    \<and> peerDecode refLib (drop 6 ''/ipns/bob'') = Inr pid
    \<and> multihashSum refLib pid SHA2_256 (- 1) = Inr mh
    \<and> encode refLib (ChunkNode \<lparr>chunk_Entries = [mh], chunk_Next = None\<rparr>) = Inr eb
    \<and> headAd refLib (ds_kv (snd (Publish refLib freshNaam 0 None ''/ipfs/x'' ''/ipns/bob''))) a
    \<and> ad_Entries a = Some (buildLink refLib eb)
    \<and> ds_kv (snd (Publish refLib freshNaam 0 None ''/ipfs/x'' ''/ipns/bob''))
         (lsKey refLib (buildLink refLib eb)) = Some eb)"
proof -
  have e: "fst (Publish refLib freshNaam 0 None ''/ipfs/x'' ''/ipns/bob'') = Inr ()"
    by (simp add: ref_eval)
  from entries_block_of_claimed_identity
    [OF Publish_pair [OF e] refLib_codec_roundtrip refLib_collision_free]
    e refLib_codec_roundtrip refLib_collision_free
  show ?thesis by blast
qed

text \<open>
  C7. For every successful Publish, the metadata of the advertisement stored at
  the new head is the unsigned-varint encoding of the naming protocol ID
  followed by the serialized bytes of the naming record built in the call.
\<close>

theorem metadata_wire_format:
  assumes "Publish L n now ann val name = (Inr u, n')"
  shows "\<exists>h rec m a.
      storedHeight L (ds_kv n) = Inr h
    \<and> newRecord L (host_pk n) val (h + 1) (now + hours24) 0 True = Inr rec
    \<and> marshalRecord L rec = Inr m
    \<and> headAd L (ds_kv n') a
    \<and> ad_Metadata a = toUvarint L (metadataProtocolID L) @ m"
proof -
  from Publish_Inr_head [OF assms] obtain h rec pid eb md sig where
    h: "storedHeight L (ds_kv n) = Inr h" and
    r: "newRecord L (host_pk n) val (h + 1) (now + hours24) 0 True = Inr rec" and
    md: "ipnsMetadata L rec = Inr md" and
    hd: "headAd L (ds_kv n') ((unsignedAd L n pid (buildLink L eb) md)\<lparr>ad_Signature := sig\<rparr>)"
    by blast
  from md obtain m where m: "marshalRecord L rec = Inr m"
    and mdm: "md = toUvarint L (metadataProtocolID L) @ m"
    by (auto simp: ipnsMetadata_def split: sum.splits)
  have "ad_Metadata ((unsignedAd L n pid (buildLink L eb) md)\<lparr>ad_Signature := sig\<rparr>)
      = toUvarint L (metadataProtocolID L) @ m"
    by (simp add: unsignedAd_def mdm)
  with h r m hd show ?thesis by blast
qed

theorem metadata_wire_format_witness:
  "fst (Publish refLib freshNaam 0 None ''/ipfs/x'' ''/ipns/bob'') = Inr ()
   \<and> (\<exists>h rec m a.
      storedHeight refLib (ds_kv freshNaam) = Inr h
    \<and> newRecord refLib (host_pk freshNaam) ''/ipfs/x'' (h + 1) (0 + hours24) 0 True = Inr rec
    \<and> marshalRecord refLib rec = Inr m
    \<and> headAd refLib (ds_kv (snd (Publish refLib freshNaam 0 None ''/ipfs/x'' ''/ipns/bob''))) a
    \<and> ad_Metadata a = toUvarint refLib (metadataProtocolID refLib) @ m)"
proof -
  have e: "fst (Publish refLib freshNaam 0 None ''/ipfs/x'' ''/ipns/bob'') = Inr ()"
    by (simp add: ref_eval)
  from metadata_wire_format [OF Publish_pair [OF e]] e show ?thesis by blast
qed

text \<open>
  C8. Storing a node twice through the link system returns the same link both
  times, and the second store leaves the datastore as the first left it; the
  bytes under the link are the serialized node, and loading the link returns
  them. Where links do not collide, a store changes no block that was already
  stored under the link of its own bytes.
\<close>

theorem link_store_idempotent:
  assumes "lsStore L n nd = (Inr l, n1)" and "lsStore L n1 nd = (Inr l', n2)"
  shows "l' = l \<and> ds_kv n2 = ds_kv n1
    \<and> (\<exists>buf. encode L nd = Inr buf \<and> l = buildLink L buf
          \<and> ds_kv n2 (lsKey L l) = Some buf
          \<and> (set (take 1 (ds_faults n2)) \<subseteq> {None} \<longrightarrow> fst (lsLoad L n2 l) = Inr buf))
    \<and> (collision_free L \<longrightarrow>
          (\<forall>v. ds_kv n (lsKey L (buildLink L v)) = Some v
                \<longrightarrow> ds_kv n2 (lsKey L (buildLink L v)) = Some v))"
proof -
  from lsStore_Inr_tl [OF assms(1)] obtain buf where
    b: "encode L nd = Inr buf" and l: "l = buildLink L buf" and
    e1: "n1 = n\<lparr>ds_faults := tl (ds_faults n), ds_kv := (ds_kv n)(lsKey L l \<mapsto> buf)\<rparr>"
    by blast
  from lsStore_Inr_tl [OF assms(2)] b have l': "l' = buildLink L buf" and
    e2: "n2 = n1\<lparr>ds_faults := tl (ds_faults n1), ds_kv := (ds_kv n1)(lsKey L l' \<mapsto> buf)\<rparr>"
    by auto
  have ll: "l' = l" by (simp add: l l')
  have kv1: "ds_kv n1 = (ds_kv n)(lsKey L l \<mapsto> buf)" by (subst e1) simp
  have kv2: "ds_kv n2 = (ds_kv n1)(lsKey L l \<mapsto> buf)" by (subst e2) (simp add: ll)
  have same: "ds_kv n2 = ds_kv n1" by (simp add: kv2 kv1)
  have at: "ds_kv n2 (lsKey L l) = Some buf" by (simp add: kv2)
  have ld: "fst (lsLoad L n2 l) = Inr buf" if "set (take 1 (ds_faults n2)) \<subseteq> {None}"
    using that at by (cases "ds_faults n2") (auto simp: lsLoad_def dsGet_def next_fault_eq)
  have im: "ds_kv n2 (lsKey L (buildLink L v)) = Some v"
    if cf: "collision_free L" and v: "ds_kv n (lsKey L (buildLink L v)) = Some v" for v
  proof (cases "lsKey L (buildLink L v) = lsKey L l")
    case True
    with cf l have "v = buf" by (simp add: collision_free_def)
    with True at show ?thesis by simp
  next
    case False
    with v show ?thesis by (simp add: same kv1)
  qed
  from ll same b l at ld im show ?thesis by blast
qed

theorem link_store_idempotent_witness:
  "fst (lsStore refLib freshNaam (ChunkNode \<lparr>chunk_Entries = [''hbob''], chunk_Next = None\<rparr>))
     = Inr ''bc1011110hbob0''
   \<and> fst (lsStore refLib
        (snd (lsStore refLib freshNaam (ChunkNode \<lparr>chunk_Entries = [''hbob''], chunk_Next = None\<rparr>)))
        (ChunkNode \<lparr>chunk_Entries = [''hbob''], chunk_Next = None\<rparr>))
     = Inr ''bc1011110hbob0''
   \<and> ds_kv (snd (lsStore refLib
        (snd (lsStore refLib freshNaam (ChunkNode \<lparr>chunk_Entries = [''hbob''], chunk_Next = None\<rparr>)))
        (ChunkNode \<lparr>chunk_Entries = [''hbob''], chunk_Next = None\<rparr>)))
     = ds_kv (snd (lsStore refLib freshNaam (ChunkNode \<lparr>chunk_Entries = [''hbob''], chunk_Next = None\<rparr>)))
   \<and> collision_free refLib"
proof -
  let ?nd = "ChunkNode \<lparr>chunk_Entries = [''hbob''], chunk_Next = None\<rparr>"
  let ?n1 = "snd (lsStore refLib freshNaam ?nd)"
  let ?n2 = "snd (lsStore refLib ?n1 ?nd)"
  have fa: "fst (lsStore refLib freshNaam ?nd) = Inr ''bc1011110hbob0''"
    by (simp add: ref_eval)
  have fb: "fst (lsStore refLib ?n1 ?nd) = Inr ''bc1011110hbob0''"
    by (simp add: ref_eval)
  have a: "lsStore refLib freshNaam ?nd = (Inr ''bc1011110hbob0'', ?n1)"
    using fa by (cases "lsStore refLib freshNaam ?nd") simp
  have b: "lsStore refLib ?n1 ?nd = (Inr ''bc1011110hbob0'', ?n2)"
    using fb by (cases "lsStore refLib ?n1 ?nd") simp
  from link_store_idempotent [OF a b] have "ds_kv ?n2 = ds_kv ?n1" by blast
  with fa fb refLib_collision_free show ?thesis by blast
qed

text \<open>
  C9. Every Publish call either returns an error having stored no
  advertisement (nothing but the datastore changed, and every key that changed
  holds an entry chunk under the chunk's own link), or has stored in the link
  store, and made the publisher's root, an advertisement signed with the
  host's private key whose metadata is the protocol ID's varint followed by
  the serialized naming record that \<open>ipns.NewRecord\<close> built with the same host
  key; the claimed name only supplies the provider identity, and when the call
  returns no error this advertisement is the head. Where a record validates
  against the public key of its signing key and no other, the embedded record
  validates against the publisher's public key only, whatever peer the
  claimed name belongs to.
\<close>

theorem single_signing_key:
  assumes "Publish L n now ann val name = (r, n')"
  shows "(\<exists>e. r = Inl e \<and> n' = n\<lparr>ds_faults := ds_faults n', ds_kv := ds_kv n'\<rparr>
            \<and> (\<forall>k. ds_kv n' k \<noteq> ds_kv n k \<longrightarrow>
                  (\<exists>c eb. encode L (ChunkNode c) = Inr eb \<and> k = lsKey L (buildLink L eb)
                     \<and> ds_kv n' k = Some eb)))
       \<or> (\<exists>h rec m pid a0 sig ab.
            storedHeight L (ds_kv n) = Inr h
          \<and> newRecord L (host_pk n) val (h + 1) (now + hours24) 0 True = Inr rec
          \<and> marshalRecord L rec = Inr m
          \<and> ad_Metadata a0 = toUvarint L (metadataProtocolID L) @ m
          \<and> peerIDFromName L name = Inr pid
          \<and> ad_Provider a0 = peerString L pid
          \<and> signAd L (host_pk n) a0 = Inr sig
          \<and> encode L (AdNode (a0\<lparr>ad_Signature := sig\<rparr>)) = Inr ab
          \<and> ds_kv n' (lsKey L (buildLink L ab)) = Some ab
          \<and> pub_root n' = buildLink L ab
          \<and> (r = Inr () \<longrightarrow> headAd L (ds_kv n') (a0\<lparr>ad_Signature := sig\<rparr>))
          \<and> (signature_binding L \<longrightarrow>
                recordVerify L (pubKey L (host_pk n)) rec
                \<and> (\<forall>P. P \<noteq> pubKey L (host_pk n) \<longrightarrow> \<not> recordVerify L P rec)))"
proof -
  obtain rb n4 where b: "buildAndStore L n now val name = (rb, n4)"
    by (cases "buildAndStore L n now val name")
  show ?thesis
  proof (cases rb)
    case (Inl e)
    with b assms have r: "r = Inl e" and n': "n' = n4"
      by (simp_all add: Publish_factor bindE_simps)
    from buildAndStore_fail [of L n now val name] b Inl have "onlyChunks L n n4" by simp
    with r n' show ?thesis unfolding onlyChunks_def by blast
  next
    case (Inr al)
    from b assms Inr have c: "commitAndAnnounce L ann al n4 = (r, n')"
      by (simp add: Publish_factor bindE_simps)
    from buildAndStore_Inr [OF b [unfolded Inr]] obtain h rec pid eb md sig ab where
      h: "storedHeight L (ds_kv n) = Inr h" and
      rc: "newRecord L (host_pk n) val (h + 1) (now + hours24) 0 True = Inr rec" and
      p: "peerIDFromName L name = Inr pid" and
      md: "ipnsMetadata L rec = Inr md" and
      sg: "signAd L (host_pk n) (unsignedAd L n pid (buildLink L eb) md) = Inr sig" and
      ab: "encode L (AdNode ((unsignedAd L n pid (buildLink L eb) md)\<lparr>ad_Signature := sig\<rparr>)) = Inr ab" and
      al: "al = buildLink L ab" and
      e4: "n4 = n\<lparr>ds_faults := drop 4 (ds_faults n),
             ds_kv := (ds_kv n)(lsKey L (buildLink L eb) \<mapsto> eb,
                                lsKey L (buildLink L ab) \<mapsto> ab)\<rparr>"
      by blast
    let ?a0 = "unsignedAd L n pid (buildLink L eb) md"
    from md obtain m where m: "marshalRecord L rec = Inr m"
      and mdm: "md = toUvarint L (metadataProtocolID L) @ m"
      by (auto simp: ipnsMetadata_def split: sum.splits)
    have mt: "ad_Metadata ?a0 = toUvarint L (metadataProtocolID L) @ m"
      by (simp add: unsignedAd_def mdm)
    have pr: "ad_Provider ?a0 = peerString L pid" by (simp add: unsignedAd_def)
    have at4: "ds_kv n4 (lsKey L (buildLink L ab)) = Some ab" by (subst e4) simp
    from commitAndAnnounce_frame [OF c] have
      root: "pub_root n' = buildLink L ab" and
      at: "ds_kv n' (lsKey L (buildLink L ab)) = Some ab" and
      hdk: "r = Inr () \<longrightarrow> ds_kv n' headAdCid = Some (buildLink L ab)"
      using at4 by (simp_all add: al)
    have hd: "r = Inr () \<longrightarrow> headAd L (ds_kv n') (?a0\<lparr>ad_Signature := sig\<rparr>)"
      unfolding headAd_def using ab at hdk by blast
    have v: "signature_binding L \<longrightarrow>
          recordVerify L (pubKey L (host_pk n)) rec
          \<and> (\<forall>P. P \<noteq> pubKey L (host_pk n) \<longrightarrow> \<not> recordVerify L P rec)"
      using rc unfolding signature_binding_def by blast
    have "\<exists>h rec m pid a0 sig ab.
            storedHeight L (ds_kv n) = Inr h
          \<and> newRecord L (host_pk n) val (h + 1) (now + hours24) 0 True = Inr rec
          \<and> marshalRecord L rec = Inr m
          \<and> ad_Metadata a0 = toUvarint L (metadataProtocolID L) @ m
          \<and> peerIDFromName L name = Inr pid
          \<and> ad_Provider a0 = peerString L pid
          \<and> signAd L (host_pk n) a0 = Inr sig
          \<and> encode L (AdNode (a0\<lparr>ad_Signature := sig\<rparr>)) = Inr ab
          \<and> ds_kv n' (lsKey L (buildLink L ab)) = Some ab
          \<and> pub_root n' = buildLink L ab
          \<and> (r = Inr () \<longrightarrow> headAd L (ds_kv n') (a0\<lparr>ad_Signature := sig\<rparr>))
          \<and> (signature_binding L \<longrightarrow>
                recordVerify L (pubKey L (host_pk n)) rec
                \<and> (\<forall>P. P \<noteq> pubKey L (host_pk n) \<longrightarrow> \<not> recordVerify L P rec))"
      apply (rule exI [of _ h], rule exI [of _ rec], rule exI [of _ m], rule exI [of _ pid])
      apply (rule exI [of _ ?a0], rule exI [of _ sig], rule exI [of _ ab])
      using h rc m mt p pr sg ab at root hd v by (intro conjI)
    then show ?thesis by (rule disjI2)
  qed
qed


theorem single_signing_key_witness:
  "signature_binding refLib
   \<and> fst (Publish refLib freshNaam 0 (Some ''connection refused'') ''/ipfs/x'' ''/ipns/bob'')
       = Inl (ErrWrap ''unsuccessful announce'' (ErrLib ''connection refused''))
   \<and> (\<exists>h rec m pid a0 sig ab.
          storedHeight refLib (ds_kv freshNaam) = Inr h
        \<and> newRecord refLib (host_pk freshNaam) ''/ipfs/x'' (h + 1) (0 + hours24) 0 True = Inr rec
        \<and> marshalRecord refLib rec = Inr m
        \<and> ad_Metadata a0 = toUvarint refLib (metadataProtocolID refLib) @ m
        \<and> peerIDFromName refLib ''/ipns/bob'' = Inr pid
        \<and> ad_Provider a0 = peerString refLib pid
        \<and> signAd refLib (host_pk freshNaam) a0 = Inr sig
        \<and> encode refLib (AdNode (a0\<lparr>ad_Signature := sig\<rparr>)) = Inr ab
        \<and> ds_kv (snd (Publish refLib freshNaam 0 (Some ''connection refused'') ''/ipfs/x''
              ''/ipns/bob'')) (lsKey refLib (buildLink refLib ab)) = Some ab
        \<and> pub_root (snd (Publish refLib freshNaam 0 (Some ''connection refused'') ''/ipfs/x''
              ''/ipns/bob'')) = buildLink refLib ab
        \<and> recordVerify refLib (pubKey refLib (host_pk freshNaam)) rec
        \<and> (\<forall>P. P \<noteq> pubKey refLib (host_pk freshNaam) \<longrightarrow> \<not> recordVerify refLib P rec))
   \<and> fst (Publish refLib freshNaam 0 None ''/ipfs/x'' ''/ipns/bob'') = Inr ()
   \<and> (\<exists>a0 sig. signAd refLib (host_pk freshNaam) a0 = Inr sig
        \<and> headAd refLib (ds_kv (snd (Publish refLib freshNaam 0 None ''/ipfs/x'' ''/ipns/bob'')))
             (a0\<lparr>ad_Signature := sig\<rparr>))"
proof -
  let ?pf = "Publish refLib freshNaam 0 (Some ''connection refused'') ''/ipfs/x'' ''/ipns/bob''"
  let ?ps = "Publish refLib freshNaam 0 None ''/ipfs/x'' ''/ipns/bob''"
  have ef: "fst ?pf = Inl (ErrWrap ''unsuccessful announce'' (ErrLib ''connection refused''))"
    by (simp add: ref_eval)
  have es: "fst ?ps = Inr ()" by (simp add: ref_eval)
  have rt: "pub_root (snd ?pf) \<noteq> pub_root freshNaam" by (simp add: ref_eval)
  have na: "\<not> (snd ?pf = freshNaam\<lparr>ds_faults := ds_faults (snd ?pf), ds_kv := ds_kv (snd ?pf)\<rparr>)"
  proof
    assume "snd ?pf = freshNaam\<lparr>ds_faults := ds_faults (snd ?pf), ds_kv := ds_kv (snd ?pf)\<rparr>"
    then have "pub_root (snd ?pf)
        = pub_root (freshNaam\<lparr>ds_faults := ds_faults (snd ?pf), ds_kv := ds_kv (snd ?pf)\<rparr>)"
      by simp
    with rt show False by simp
  qed
  note sb = refLib_signature_binding
  from single_signing_key [OF Publish_pair [OF ef]] na sb
  have 1: "\<exists>h rec m pid a0 sig ab.
          storedHeight refLib (ds_kv freshNaam) = Inr h
        \<and> newRecord refLib (host_pk freshNaam) ''/ipfs/x'' (h + 1) (0 + hours24) 0 True = Inr rec
        \<and> marshalRecord refLib rec = Inr m
        \<and> ad_Metadata a0 = toUvarint refLib (metadataProtocolID refLib) @ m
        \<and> peerIDFromName refLib ''/ipns/bob'' = Inr pid
        \<and> ad_Provider a0 = peerString refLib pid
        \<and> signAd refLib (host_pk freshNaam) a0 = Inr sig
        \<and> encode refLib (AdNode (a0\<lparr>ad_Signature := sig\<rparr>)) = Inr ab
        \<and> ds_kv (snd ?pf) (lsKey refLib (buildLink refLib ab)) = Some ab
        \<and> pub_root (snd ?pf) = buildLink refLib ab
        \<and> recordVerify refLib (pubKey refLib (host_pk freshNaam)) rec
        \<and> (\<forall>P. P \<noteq> pubKey refLib (host_pk freshNaam) \<longrightarrow> \<not> recordVerify refLib P rec)"
    by (elim disjE exE conjE) (blast+)
  from single_signing_key [OF Publish_pair [OF es]]
  have 2: "\<exists>a0 sig. signAd refLib (host_pk freshNaam) a0 = Inr sig
        \<and> headAd refLib (ds_kv (snd ?ps)) (a0\<lparr>ad_Signature := sig\<rparr>)"
    by (elim disjE exE conjE) (simp, blast)
  from sb ef 1 es 2 show ?thesis by (intro conjI)
qed

text \<open>
  C10. When the bytes under the head key do not parse as a CID, \<open>getHeadAdCid\<close>
  returns \<open>cid.Undef\<close> and no error (whenever the read itself works), and a
  Publish that succeeds from such a state stores at the head an advertisement
  without previous link: it starts a new chain.
\<close>

theorem corrupt_head_treated_as_absent:
  assumes "ds_kv n headAdCid = Some c" and "cidFromBytes L c = Inl e"
  shows "(set (take 1 (ds_faults n)) \<subseteq> {None} \<longrightarrow>
            getHeadAdCid L n = (Inr Undef, n\<lparr>ds_faults := tl (ds_faults n)\<rparr>))
       \<and> (Publish L n now ann val name = (Inr u, n') \<longrightarrow>
            (\<exists>a. headAd L (ds_kv n') a \<and> ad_PreviousID a = None))"
proof -
  have A: "getHeadAdCid L n = (Inr Undef, n\<lparr>ds_faults := tl (ds_faults n)\<rparr>)"
    if "set (take 1 (ds_faults n)) \<subseteq> {None}"
    using that assms
    by (cases "ds_faults n") (auto simp: getHeadAdCid_def dsGet_def next_fault_eq)
  have sh: "storedHead L (ds_kv n) = Undef"
    using assms by (simp add: storedHead_def)
  have B: "\<exists>a. headAd L (ds_kv n') a \<and> ad_PreviousID a = None"
    if p: "Publish L n now ann val name = (Inr u, n')"
  proof -
    from Publish_Inr_head [OF p] obtain pid eb md sig where
      hd: "headAd L (ds_kv n') ((unsignedAd L n pid (buildLink L eb) md)\<lparr>ad_Signature := sig\<rparr>)"
      by blast
    have "ad_PreviousID ((unsignedAd L n pid (buildLink L eb) md)\<lparr>ad_Signature := sig\<rparr>) = None"
      by (simp add: unsignedAd_def prevLinkOf_def sh)
    with hd show ?thesis by blast
  qed
  from A B show ?thesis by blast
qed

theorem corrupt_head_treated_as_absent_witness:
  "ds_kv (freshNaam\<lparr>ds_kv := [headAdCid \<mapsto> ''garbage'']\<rparr>) headAdCid = Some ''garbage''
   \<and> cidFromBytes refLib ''garbage'' = Inl (ErrLib ''bad cid'')
   \<and> set (take 1 (ds_faults (freshNaam\<lparr>ds_kv := [headAdCid \<mapsto> ''garbage'']\<rparr>))) \<subseteq> {None}
   \<and> getHeadAdCid refLib (freshNaam\<lparr>ds_kv := [headAdCid \<mapsto> ''garbage'']\<rparr>)
       = (Inr Undef, freshNaam\<lparr>ds_kv := [headAdCid \<mapsto> ''garbage'']\<rparr>)
   \<and> fst (Publish refLib (freshNaam\<lparr>ds_kv := [headAdCid \<mapsto> ''garbage'']\<rparr>)
        0 None ''/ipfs/x'' ''/ipns/bob'') = Inr ()
   \<and> (\<exists>a. headAd refLib (ds_kv (snd (Publish refLib
            (freshNaam\<lparr>ds_kv := [headAdCid \<mapsto> ''garbage'']\<rparr>) 0 None ''/ipfs/x'' ''/ipns/bob''))) a
        \<and> ad_PreviousID a = None)"
proof -
  let ?n = "freshNaam\<lparr>ds_kv := [headAdCid \<mapsto> ''garbage'']\<rparr>"
  have a: "ds_kv ?n headAdCid = Some ''garbage''" by simp
  have b: "cidFromBytes refLib ''garbage'' = Inl (ErrLib ''bad cid'')" by (simp add: refLib_def)
  have c: "set (take 1 (ds_faults ?n)) \<subseteq> {None}" by (simp add: freshNaam_def)
  have d: "?n\<lparr>ds_faults := tl (ds_faults ?n)\<rparr> = ?n" by (simp add: freshNaam_def)
  have e: "fst (Publish refLib ?n 0 None ''/ipfs/x'' ''/ipns/bob'') = Inr ()"
    by (simp add: ref_eval)
  from corrupt_head_treated_as_absent [OF a b, of 0 None "''/ipfs/x''" "''/ipns/bob''" "()"
      "snd (Publish refLib ?n 0 None ''/ipfs/x'' ''/ipns/bob'')"] Publish_pair [OF e] c d
  have "getHeadAdCid refLib ?n = (Inr Undef, ?n)
     \<and> (\<exists>a. headAd refLib (ds_kv (snd (Publish refLib ?n 0 None ''/ipfs/x'' ''/ipns/bob''))) a
        \<and> ad_PreviousID a = None)"
    by simp
  with a b c e show ?thesis by blast
qed

end
